theory Spec2Isabelle
  imports Complex_Main "HOL-Library.Sublist" "HOL-Library.Log_Nat"
begin

section \<open>JavaScript values and strings\<close>

text \<open>
  The values a JSON request body or a stored event carries in a field. \<open>JUndefined\<close> is
  an absent field. Numbers are the integer-valued ones; strings are lists of 8-bit
  characters, that is JavaScript strings whose code units are all below 256. Arrays and
  objects as field values are outside this model.
\<close>

datatype jsval = JUndefined | JNull | JBool bool | JNum int | JStr string

text \<open>ToBoolean: \<open>undefined\<close>, \<open>null\<close>, \<open>false\<close>, \<open>0\<close> and \<open>''\<close> are falsy.\<close>

fun truthy :: "jsval \<Rightarrow> bool" where
  "truthy JUndefined = False"
| "truthy JNull = False"
| "truthy (JBool b) = b"
| "truthy (JNum n) = (n \<noteq> 0)"
| "truthy (JStr s) = (s \<noteq> [])"

text \<open>\<open>a || b\<close> on values, and the default of a destructuring pattern or of a parameter
  (\<open>x = d\<close>), which applies to \<open>undefined\<close> only.\<close>

definition js_or :: "jsval \<Rightarrow> jsval \<Rightarrow> jsval" where
  "js_or a b = (if truthy a then a else b)"

definition default_to :: "jsval \<Rightarrow> jsval \<Rightarrow> jsval" where
  "default_to v d = (if v = JUndefined then d else v)"

text \<open>Decimal digits of a natural number, and \<open>String(v)\<close>.\<close>

definition digit_char :: "nat \<Rightarrow> char" where
  "digit_char d = char_of (48 + d)"

fun dec :: "nat \<Rightarrow> string" where
  "dec n = (if n < 10 then [digit_char n] else dec (n div 10) @ [digit_char (n mod 10)])"

declare dec.simps [simp del]

definition dec_int :: "int \<Rightarrow> string" where
  "dec_int i = (if i < 0 then CHR ''-'' # dec (nat (- i)) else dec (nat i))"

fun ToString :: "jsval \<Rightarrow> string" where
  "ToString JUndefined = ''undefined''"
| "ToString JNull = ''null''"
| "ToString (JBool b) = (if b then ''true'' else ''false'')"
| "ToString (JNum n) = dec_int n"
| "ToString (JStr s) = s"

text \<open>\<open>String.prototype.toLowerCase\<close> on code units below 256: \<open>A\<close>..\<open>Z\<close> and the
  Latin-1 capitals \<open>0xC0\<close>..\<open>0xDE\<close> (without the multiplication sign \<open>0xD7\<close>) move up
  by 32.\<close>

definition toLowerCase_char :: "char \<Rightarrow> char" where
  "toLowerCase_char c =
     (let n = (of_char c :: nat)
      in if (65 \<le> n \<and> n \<le> 90) \<or> (192 \<le> n \<and> n \<le> 222 \<and> n \<noteq> 215)
         then char_of (n + 32) else c)"

definition toLowerCase :: "string \<Rightarrow> string" where
  "toLowerCase s = map toLowerCase_char s"

definition startsWith :: "string \<Rightarrow> string \<Rightarrow> bool" where
  "startsWith s p = prefix p s"

definition includes_js :: "string \<Rightarrow> string \<Rightarrow> bool" where
  "includes_js s p = sublist p s"

text \<open>
  A case-insensitive regular expression that is an alternation of ASCII words
  (\<open>/Mobile|Android|iPhone/i\<close>): \<open>test\<close> holds when one of the words occurs in the
  string, letters compared after canonicalisation. Without the \<open>u\<close> flag a character
  outside ASCII never canonicalises to an ASCII one, so only \<open>a\<close>..\<open>z\<close> are folded.
\<close>

definition Canonicalize :: "char \<Rightarrow> char" where
  "Canonicalize c =
     (let n = (of_char c :: nat) in if 97 \<le> n \<and> n \<le> 122 then char_of (n - 32) else c)"

definition regex_i_test :: "string list \<Rightarrow> string \<Rightarrow> bool" where
  "regex_i_test alts s =
     list_ex (\<lambda>w. sublist (map Canonicalize w) (map Canonicalize s)) alts"

section \<open>Administrative paths\<close>

text \<open>\<open>isAdminPath(p = '')\<close>, server/index.js lines 70-75. \<open>String\<close> does not throw on
  the values of \<open>jsval\<close>, so the \<open>catch\<close> branch is never taken.\<close>

definition isAdminPath :: "jsval \<Rightarrow> bool" where
  "isAdminPath p =
     (let v = toLowerCase (ToString (default_to p (JStr '''')))
      in startsWith v ''/admin'' \<or> includes_js v ''admin-'')"

section \<open>The event log and the track operation\<close>

record event =
  e_id :: string
  e_ts :: int
  e_type :: jsval
  e_path :: jsval
  e_referrer :: jsval
  e_device :: jsval
  e_sessionId :: jsval
  e_ip :: jsval

text \<open>The fields the handler destructures from \<open>req.body || {}\<close>; an absent body gives
  every field \<open>undefined\<close>.\<close>

record track_body =
  b_type :: jsval
  b_path :: jsval
  b_page :: jsval
  b_referrer :: jsval
  b_device :: jsval
  b_sessionId :: jsval

definition empty_body :: track_body where
  "empty_body = \<lparr>b_type = JUndefined, b_path = JUndefined, b_page = JUndefined,
     b_referrer = JUndefined, b_device = JUndefined, b_sessionId = JUndefined\<rparr>"

record track_request =
  req_body :: "track_body option"
  req_user_agent :: jsval
  req_referer :: jsval
  req_ip :: jsval

text \<open>What the handler takes from outside the request: two \<open>uuid()\<close> results, the clock,
  and whether reading and writing the analytics file succeed.\<close>

record track_env =
  uuid_event :: string
  uuid_session :: string
  date_now :: int
  read_ok :: bool
  write_ok :: bool

datatype track_response =
  TrackOk string
| TrackIgnored
| TrackFailed

text \<open>\<open>const finalPath = pagePath || page || '/'\<close> with \<open>path: pagePath = '/'\<close>.\<close>

definition finalPath :: "track_body \<Rightarrow> jsval" where
  "finalPath b =
     (let pagePath = default_to (b_path b) (JStr ''/'')
      in js_or (js_or pagePath (b_page b)) (JStr ''/''))"

definition make_event :: "track_env \<Rightarrow> track_request \<Rightarrow> event" where
  "make_event env req =
     (let b = (case req_body req of None \<Rightarrow> empty_body | Some b \<Rightarrow> b);
          ua = js_or (req_user_agent req) (JStr '''')
      in \<lparr>e_id = uuid_event env,
          e_ts = date_now env,
          e_type = default_to (b_type b) (JStr ''pageview''),
          e_path = finalPath b,
          e_referrer = js_or (js_or (b_referrer b) (req_referer req)) (JStr ''''),
          e_device = js_or (b_device b) ua,
          e_sessionId = js_or (b_sessionId b) (JStr (uuid_session env)),
          e_ip = req_ip req\<rparr>)"

text \<open>
  \<open>POST /api/analytics/track\<close>, lines 130-154: the response and the event log after the
  request. The log changes only when the file is read and written; any failure is the
  \<open>500\<close> response and leaves the log as it was.
\<close>

definition track :: "track_env \<Rightarrow> track_request \<Rightarrow> event list \<Rightarrow> track_response \<times> event list" where
  "track env req events =
     (let b = (case req_body req of None \<Rightarrow> empty_body | Some b \<Rightarrow> b)
      in if isAdminPath (finalPath b) then (TrackIgnored, events)
         else if \<not> read_ok env \<or> \<not> write_ok env then (TrackFailed, events)
         else (TrackOk (uuid_event env), events @ [make_event env req]))"

section \<open>Insertion-ordered maps\<close>

text \<open>
  A JavaScript \<open>Map\<close> keeps its keys in insertion order, and \<open>Array.from(m.entries())\<close>
  lists them so: the map is the list of its entries. \<open>m.set(k, v)\<close> overwrites the value
  of a key that is there, in place, and appends a new key. Keys are compared by
  SameValueZero, which is equality on the values of \<open>jsval\<close> and on strings.
\<close>

fun map_set :: "('k \<times> 'v) list \<Rightarrow> 'k \<Rightarrow> 'v \<Rightarrow> ('k \<times> 'v) list" where
  "map_set [] k v = [(k, v)]"
| "map_set ((k', v') # m) k v = (if k' = k then (k, v) # m else (k', v') # map_set m k v)"

text \<open>\<open>m.get(k) || 0\<close>.\<close>

definition get_or_0 :: "('k \<times> nat) list \<Rightarrow> 'k \<Rightarrow> nat" where
  "get_or_0 m k = (case map_of m k of None \<Rightarrow> 0 | Some c \<Rightarrow> if c = 0 then 0 else c)"

text \<open>\<open>xs.reduce((m, e) => (m.set(f(e), (m.get(f(e)) || 0) + 1), m), new Map())\<close>.\<close>

definition count_by :: "('a \<Rightarrow> 'k) \<Rightarrow> 'a list \<Rightarrow> ('k \<times> nat) list" where
  "count_by f xs = foldl (\<lambda>m e. map_set m (f e) (get_or_0 m (f e) + 1)) [] xs"

section \<open>The window filter\<close>

text \<open>
  \<open>obj[key]\<close> on an object literal: an own property, a property inherited from
  \<open>Object.prototype\<close> (a function or an object, truthy and not a number), or
  \<open>undefined\<close>.
\<close>

datatype 'a property = Own 'a | Inherited | Missing

definition object_prototype_keys :: "string list" where
  "object_prototype_keys =
     [''constructor'', ''__defineGetter__'', ''__defineSetter__'', ''hasOwnProperty'',
      ''__lookupGetter__'', ''__lookupSetter__'', ''isPrototypeOf'',
      ''propertyIsEnumerable'', ''toString'', ''valueOf'', ''__proto__'',
      ''toLocaleString'']"

definition get_property :: "(string \<times> 'a) list \<Rightarrow> string \<Rightarrow> 'a property" where
  "get_property obj k =
     (case map_of obj k of
        Some v \<Rightarrow> Own v
      | None \<Rightarrow> if k \<in> set object_prototype_keys then Inherited else Missing)"

text \<open>\<open>req.query.period || '7d'\<close>, the query parameter a string or absent.\<close>

definition query_period :: "string option \<Rightarrow> string" where
  "query_period q = (case q of None \<Rightarrow> ''7d'' | Some s \<Rightarrow> if s = [] then ''7d'' else s)"

definition window_map :: "(string \<times> int) list" where
  "window_map =
     [(''1d'', 86400000), (''7d'', 7 * 86400000), (''30d'', 30 * 86400000),
      (''90d'', 90 * 86400000), (''1y'', 365 * 86400000)]"

text \<open>\<open>map[period] || map['7d']\<close>; \<open>None\<close> is an inherited property, and \<open>now\<close> minus
  it is \<open>NaN\<close>.\<close>

definition windowMs :: "string \<Rightarrow> int option" where
  "windowMs period =
     (case get_property window_map period of
        Own n \<Rightarrow> if n \<noteq> 0 then Some n else Some (7 * 86400000)
      | Inherited \<Rightarrow> None
      | Missing \<Rightarrow> Some (7 * 86400000))"

text \<open>\<open>filterEvents(events, period)\<close>, lines 157-163, with \<open>Date.now()\<close> as \<open>now\<close>.
  No timestamp is \<open>>= NaN\<close>.\<close>

definition filterEvents :: "int \<Rightarrow> event list \<Rightarrow> string \<Rightarrow> event list" where
  "filterEvents now events period =
     (case windowMs period of
        None \<Rightarrow> []
      | Some w \<Rightarrow> filter (\<lambda>e. e_ts e \<ge> now - w \<and> \<not> isAdminPath (e_path e)) events)"

section \<open>Summary\<close>

record summary =
  visitors :: nat
  pageViews :: nat
  avgSession :: jsval
  bounceRate :: rat
  newMembers :: jsval
  mobileTraffic :: jsval

text \<open>
  The numbers of JavaScript are IEEE 754 doubles. A finite double is a rational number;
  \<open>to_double x\<close> is the double nearest to \<open>x\<close>, a tie going to the one with the even
  significand: with \<open>2 ^ e \<le> |x| < 2 ^ (e + 1)\<close> the doubles around \<open>x\<close> are the
  multiples of \<open>2 ^ (e - 52)\<close>, and of \<open>2 ^ -1074\<close> below the normal range. Magnitudes
  of \<open>2 ^ 1024\<close> and more, which round to \<open>Infinity\<close>, do not occur in this program.
  Division and multiplication return the double nearest to the exact result.
\<close>

definition round_half_even :: "rat \<Rightarrow> int" where
  "round_half_even x =
     (let f = \<lfloor>x\<rfloor>; d = x - of_int f
      in if d < 1 / 2 then f else if 1 / 2 < d then f + 1 else if even f then f else f + 1)"

definition exponent_of :: "rat \<Rightarrow> int" where
  "exponent_of x =
     (let (p, q) = quotient_of x; e = bitlen p - bitlen q
      in if power_int 2 e \<le> x then e else e - 1)"

definition to_double :: "rat \<Rightarrow> rat" where
  "to_double x =
     (if x = 0 then 0
      else (let a = \<bar>x\<bar>; ulp = power_int 2 (max (exponent_of a - 52) (- 1074))
            in sgn x * of_int (round_half_even (a / ulp)) * ulp))"

definition divide_js :: "rat \<Rightarrow> rat \<Rightarrow> rat" where
  "divide_js a b = to_double (a / b)"

definition times_js :: "rat \<Rightarrow> rat \<Rightarrow> rat" where
  "times_js a b = to_double (a * b)"

text \<open>\<open>Math.round\<close> gives the integer nearest to a double, a half going towards plus
  infinity.\<close>

definition Math_round :: "rat \<Rightarrow> int" where
  "Math_round x = \<lfloor>x + 1 / 2\<rfloor>"

text \<open>\<open>sessions ? Math.round((bounces / sessions) * 1000) / 10 : 0\<close>, line 175. The two
  counts are lengths of arrays, which are doubles exactly.\<close>

definition bounceRate_of :: "nat \<Rightarrow> nat \<Rightarrow> rat" where
  "bounceRate_of bounces sessions =
     (if sessions \<noteq> 0
      then divide_js
             (of_int (Math_round (times_js (divide_js (of_nat bounces) (of_nat sessions)) 1000)))
             10
      else 0)"

text \<open>\<open>GET /api/analytics/summary\<close>, lines 166-177.\<close>

definition summary_of :: "int \<Rightarrow> string option \<Rightarrow> event list \<Rightarrow> summary" where
  "summary_of now q events =
     (let period = query_period q;
          evs = filterEvents now events period;
          pageviews = length evs;
          sessions = length (remdups (map e_sessionId evs));
          countsBySession = count_by e_sessionId evs;
          bounces = length (filter (\<lambda>c. c = 1) (map snd countsBySession));
          rate = bounceRate_of bounces sessions
      in \<lparr>visitors = sessions, pageViews = pageviews, avgSession = JNull,
          bounceRate = rate, newMembers = JNull, mobileTraffic = JNull\<rparr>)"

section \<open>Timeseries\<close>

text \<open>
  What \<open>Date\<close> gives, in the server's time zone and locale: the local hour of an
  instant, its \<open>toDateString()\<close>, its short month/day label, its
  \<open>toLocaleTimeString()\<close>, and the instant \<open>k\<close> calendar days before another
  (\<open>d.setDate(d.getDate() - k)\<close>).
\<close>

record date_api =
  getHours :: "int \<Rightarrow> nat"
  toDateString :: "int \<Rightarrow> string"
  toLocaleDateString :: "int \<Rightarrow> string"
  toLocaleTimeString :: "int \<Rightarrow> string"
  minusDays :: "int \<Rightarrow> nat \<Rightarrow> int"

datatype js_error = TypeError

record series =
  s_labels :: "string list"
  s_values :: "nat list"

text \<open>\<open>buckets[d.getHours()].value += 1\<close> for each event; an index outside the 24
  buckets reads \<open>undefined\<close> and the assignment throws.\<close>

definition hourly_values :: "date_api \<Rightarrow> event list \<Rightarrow> js_error + nat list" where
  "hourly_values dt evs =
     foldl (\<lambda>acc e. case acc of
                       Inl err \<Rightarrow> Inl err
                     | Inr vs \<Rightarrow>
                         (let h = getHours dt (e_ts e)
                          in if h < length vs then Inr (vs[h := vs ! h + 1]) else Inl TypeError))
       (Inr (replicate 24 0)) evs"

text \<open>\<open>days[period] || 7\<close> as the \<open>length\<close> of the bucket array; an inherited
  property is not a number and gives length 0.\<close>

definition days_map :: "(string \<times> nat) list" where
  "days_map = [(''7d'', 7), (''30d'', 30), (''90d'', 12), (''1y'', 12)]"

definition bucket_count :: "string \<Rightarrow> nat" where
  "bucket_count period =
     (case get_property days_map period of
        Own n \<Rightarrow> if n \<noteq> 0 then n else 7
      | Inherited \<Rightarrow> 0
      | Missing \<Rightarrow> 7)"

fun find_index_of :: "('a \<Rightarrow> bool) \<Rightarrow> 'a list \<Rightarrow> nat option" where
  "find_index_of P [] = None"
| "find_index_of P (x # xs) =
     (if P x then Some 0 else map_option Suc (find_index_of P xs))"

text \<open>\<open>const b = buckets.find((b) => b.key === key); if (b) b.value += 1\<close>.\<close>

definition daily_values :: "date_api \<Rightarrow> string list \<Rightarrow> event list \<Rightarrow> nat list" where
  "daily_values dt keys evs =
     foldl (\<lambda>vs e. case find_index_of (\<lambda>k. k = toDateString dt (e_ts e)) keys of
                      None \<Rightarrow> vs
                    | Some i \<Rightarrow> vs[i := vs ! i + 1])
       (replicate (length keys) 0) evs"

text \<open>\<open>GET /api/analytics/timeseries\<close>, lines 180-208. The handler reads the clock
  twice, in \<open>filterEvents\<close> and for the day buckets; \<open>now\<close> is both readings.\<close>

definition timeseries :: "date_api \<Rightarrow> int \<Rightarrow> string option \<Rightarrow> event list \<Rightarrow> js_error + series" where
  "timeseries dt now q events =
     (let period = query_period q;
          evs = filterEvents now events period
      in if period = ''1d''
         then (case hourly_values dt evs of
                 Inl err \<Rightarrow> Inl err
               | Inr vs \<Rightarrow> Inr \<lparr>s_labels = map (\<lambda>i. dec i @ '':00'') [0..<24], s_values = vs\<rparr>)
         else (let count = bucket_count period;
                   ds = map (\<lambda>i. minusDays dt now (count - 1 - i)) [0..<count]
               in Inr \<lparr>s_labels = map (toLocaleDateString dt) ds,
                       s_values = daily_values dt (map (toDateString dt) ds) evs\<rparr>))"

section \<open>Top pages, sources, devices, realtime\<close>

text \<open>\<open>GET /api/analytics/top-pages\<close>, lines 211-218. \<open>Array.prototype.sort\<close> is stable,
  and \<open>(a, b) => b[1] - a[1]\<close> orders by descending count.\<close>

definition topPages :: "int \<Rightarrow> string option \<Rightarrow> event list \<Rightarrow> (jsval \<times> nat) list" where
  "topPages now q events =
     (let evs = filterEvents now events (query_period q);
          counts = count_by e_path evs
      in take 10 (sort_key (\<lambda>(p, c). - int c) counts))"

text \<open>\<open>sourceOf(r)\<close>, lines 225-235. \<open>hostname\<close> stands for \<open>new URL(s).hostname\<close>, the
  platform's URL parser: \<open>None\<close> when the constructor throws.\<close>

definition sourceOf :: "(string \<Rightarrow> string option) \<Rightarrow> jsval \<Rightarrow> string" where
  "sourceOf hostname r =
     (if \<not> truthy r then ''Direct''
      else (case hostname (ToString r) of
              None \<Rightarrow> ''Referral''
            | Some h \<Rightarrow>
                if includes_js h ''google'' then ''Search''
                else if includes_js h ''facebook'' \<or> includes_js h ''twitter''
                        \<or> includes_js h ''instagram'' then ''Social''
                else ''Referral''))"

definition sources :: "(string \<Rightarrow> string option) \<Rightarrow> int \<Rightarrow> string option \<Rightarrow> event list \<Rightarrow> (string \<times> nat) list" where
  "sources hostname now q events =
     count_by (\<lambda>e. sourceOf hostname (e_referrer e)) (filterEvents now events (query_period q))"

text \<open>\<open>deviceOf(ua = '')\<close>, line 246.\<close>

definition deviceOf :: "jsval \<Rightarrow> string" where
  "deviceOf ua =
     (let s = ToString (default_to ua (JStr ''''))
      in if regex_i_test [''Mobile'', ''Android'', ''iPhone''] s then ''Mobile''
         else if regex_i_test [''Tablet'', ''iPad''] s then ''Tablet''
         else ''Desktop'')"

definition devices :: "int \<Rightarrow> string option \<Rightarrow> event list \<Rightarrow> (string \<times> nat) list" where
  "devices now q events =
     count_by (\<lambda>e. deviceOf (e_device e)) (filterEvents now events (query_period q))"

record realtime_row =
  rt_time :: string
  rt_page :: jsval
  rt_location :: string
  rt_device :: string
  rt_duration :: string

text \<open>The placeholder of the source is a one-character string, the em dash; here it is
  the three bytes of its UTF-8 form.\<close>

definition em_dash :: string where
  "em_dash = [CHR 0xE2, CHR 0x80, CHR 0x94]"

definition realtime_row_of :: "date_api \<Rightarrow> event \<Rightarrow> realtime_row" where
  "realtime_row_of dt e =
     \<lparr>rt_time = toLocaleTimeString dt (e_ts e),
      rt_page = e_path e,
      rt_location = em_dash,
      rt_device = (if regex_i_test [''Mobile'', ''Android'', ''iPhone'']
                        (ToString (js_or (e_device e) (JStr '''')))
                   then ''Mobile'' else ''Desktop''),
      rt_duration = em_dash\<rparr>"

text \<open>\<open>GET /api/analytics/realtime\<close>, lines 253-263:
  \<open>events.slice(-50).reverse().slice(0, 20).map(...)\<close>.\<close>

definition realtime :: "date_api \<Rightarrow> event list \<Rightarrow> realtime_row list" where
  "realtime dt events =
     map (realtime_row_of dt) (take 20 (rev (drop (length events - 50) events)))"

section \<open>The media catalog\<close>

record media_record =
  m_id :: string
  m_name :: string
  m_storedName :: string
  m_size :: nat
  m_type :: string
  m_uploadDate :: string
  m_url :: string

text \<open>
  The multer storage's \<open>filename\<close> callback, lines 47-51:
  \<open>file.originalname.replace(/[^A-Za-z0-9._-]/g, '_')\<close>, then
  \<open>`${Date.now()}-${Math.round(Math.random() * 1e6)}-${safeName}`\<close>. The clock is an
  integer; \<open>rnd\<close> is the rounded random number, an integer from 0 to 1000000.
\<close>

definition safe_char :: "char \<Rightarrow> bool" where
  "safe_char c =
     (let n = (of_char c :: nat)
      in (65 \<le> n \<and> n \<le> 90) \<or> (97 \<le> n \<and> n \<le> 122) \<or> (48 \<le> n \<and> n \<le> 57)
         \<or> c = CHR ''.'' \<or> c = CHR ''_'' \<or> c = CHR ''-'')"

definition safeName :: "string \<Rightarrow> string" where
  "safeName originalname = map (\<lambda>c. if safe_char c then c else CHR ''_'') originalname"

definition storage_filename :: "int \<Rightarrow> nat \<Rightarrow> string \<Rightarrow> string" where
  "storage_filename now rnd originalname =
     dec_int now @ ''-'' @ dec rnd @ ''-'' @ safeName originalname"

text \<open>\<open>path.basename\<close> (POSIX): the part after the last slash, trailing slashes
  dropped.\<close>

definition basename :: "string \<Rightarrow> string" where
  "basename p =
     rev (takeWhile (\<lambda>c. c \<noteq> CHR ''/'') (dropWhile (\<lambda>c. c = CHR ''/'') (rev p)))"

text \<open>One file of a multipart request as the handler sees it, with what the platform
  gives while it is stored: the clock and the rounded random number of the \<open>filename\<close>
  callback, the \<open>uuid()\<close> of the record and the ISO date of the upload.\<close>

record upload_file =
  originalname :: string
  f_size :: nat
  mimetype :: string
  f_now :: int
  f_rnd :: nat
  f_uuid :: string
  f_date :: string

definition f_filename :: "upload_file \<Rightarrow> string" where
  "f_filename f = storage_filename (f_now f) (f_rnd f) (originalname f)"

definition record_of :: "upload_file \<Rightarrow> media_record" where
  "record_of f =
     \<lparr>m_id = f_uuid f,
      m_name = originalname f,
      m_storedName = basename (f_filename f),
      m_size = f_size f,
      m_type = mimetype f,
      m_uploadDate = f_date f,
      m_url = ''/uploads/media/'' @ basename (f_filename f)\<rparr>"

datatype upload_response =
  Saved "media_record list"
| NoFilesUploaded400
| TooManyFiles

text \<open>\<open>POST /api/media\<close>, lines 89-109, behind \<open>upload.array('files', 20)\<close>, which
  refuses a request of more than 20 files before the handler runs. The result is the
  response and the catalog after the request.\<close>

definition upload_media :: "upload_file list \<Rightarrow> media_record list \<Rightarrow> upload_response \<times> media_record list" where
  "upload_media files items =
     (if length files > 20 then (TooManyFiles, items)
      else if length files = 0 then (NoFilesUploaded400, items)
      else (let saved = map record_of files in (Saved saved, items @ saved)))"

datatype delete_response = DeleteOk | NotFound404

datatype fs_effect = WriteMediaDb "media_record list" | RemoveFile string

text \<open>
  \<open>DELETE /api/media/:id\<close>, lines 112-125: the response, the catalog after the request
  and what the handler does to the file system, in order. \<open>items.splice(idx, 1)\<close>
  removes the record at \<open>idx\<close>; the removal of the stored file is attempted and its
  failure swallowed.
\<close>

definition delete_media :: "string \<Rightarrow> media_record list \<Rightarrow> delete_response \<times> media_record list \<times> fs_effect list" where
  "delete_media ident items =
     (case find_index_of (\<lambda>m. m_id m = ident) items of
        None \<Rightarrow> (NotFound404, items, [])
      | Some idx \<Rightarrow>
          (let item = items ! idx;
               items' = take idx items @ drop (idx + 1) items
           in (DeleteOk, items', [WriteMediaDb items', RemoveFile (m_storedName item)])))"

section \<open>What the aggregates are meant to be\<close>

text \<open>
  The notions the description of the aggregates is written in, stated on the list of
  in-window events and independently of how the handlers compute: the values of a list
  in the order of their first occurrence, the sessions of a window, the sessions with
  exactly one event in it, rounding to one decimal (a half upwards), the bounce rate
  \<open>100 * (sessions with exactly 1 event / total sessions)\<close> rounded to one decimal, as
  the double nearest to that decimal, and \<open>0\<close> without sessions, and the paths of a
  window, each with the number of its events, in the order in which the paths first occur.
\<close>

fun first_occurrences :: "'a list \<Rightarrow> 'a list" where
  "first_occurrences [] = []"
| "first_occurrences (x # xs) = x # filter (\<lambda>y. y \<noteq> x) (first_occurrences xs)"






definition page_groups :: "event list \<Rightarrow> (jsval \<times> nat) list" where
  "page_groups evs =
     map (\<lambda>p. (p, length (filter (\<lambda>e. e_path e = p) evs))) (first_occurrences (map e_path evs))"

text \<open>The characters of a decimal numeral and its sign.\<close>

definition dec_char :: "char \<Rightarrow> bool" where
  "dec_char c = (c \<in> set ''-0123456789'')"

text \<open>Reading a decimal numeral back, the characters the upload keeps in a file name, and
  the four classes of traffic sources.\<close>

definition digit_value :: "char \<Rightarrow> nat" where
  "digit_value c = of_char c - 48"

definition undec :: "string \<Rightarrow> nat" where
  "undec s = foldl (\<lambda>acc c. 10 * acc + digit_value c) 0 s"

definition allowed_chars :: string where
  "allowed_chars = ''ABCDEFGHIJKLMNOPQRSTUVWXYZabcdefghijklmnopqrstuvwxyz0123456789._-''"

definition four_sources :: "string set" where
  "four_sources = {''Direct'', ''Search'', ''Social'', ''Referral''}"

section \<open>Example inputs\<close>

definition body_page_only :: track_body where
  "body_page_only = empty_body\<lparr>b_page := JStr ''/members.html''\<rparr>"

definition example_env :: track_env where
  "example_env = \<lparr>uuid_event = ''e-1'', uuid_session = ''s-1'', date_now = 1700000000000,
     read_ok = True, write_ok = True\<rparr>"

definition request_of :: "track_body \<Rightarrow> track_request" where
  "request_of b = \<lparr>req_body = Some b, req_user_agent = JStr ''Mozilla/5.0'',
     req_referer = JUndefined, req_ip = JStr ''127.0.0.1''\<rparr>"

definition media_example :: "string \<Rightarrow> string \<Rightarrow> media_record" where
  "media_example ident nm =
     \<lparr>m_id = ident, m_name = nm, m_storedName = ''1700000000000-7-'' @ nm, m_size = 10,
      m_type = ''image/png'', m_uploadDate = ''2023-11-14T22:13:20.000Z'',
      m_url = ''/uploads/media/1700000000000-7-'' @ nm\<rparr>"

definition rec_A :: media_record where
  "rec_A = media_example ''id-a'' ''a.png''"

definition rec_B :: media_record where
  "rec_B = media_example ''id-b'' ''b.png''"

definition rec_C :: media_record where
  "rec_C = media_example ''id-c'' ''c.png''"

definition event_example :: "int \<Rightarrow> string \<Rightarrow> string \<Rightarrow> event" where
  "event_example t p s =
     \<lparr>e_id = ''e'', e_ts = t, e_type = JStr ''pageview'', e_path = JStr p,
      e_referrer = JStr '''', e_device = JStr ''Mozilla/5.0'', e_sessionId = JStr s,
      e_ip = JStr ''127.0.0.1''\<rparr>"

definition bounce_log :: "event list" where
  "bounce_log =
     [event_example 1699999000000 ''/'' ''s1'',
      event_example 1699999100000 ''/about.html'' ''s3'',
      event_example 1699999200000 ''/'' ''s2'',
      event_example 1699999300000 ''/events.html'' ''s3'',
      event_example 1699999400000 ''/'' ''s3'']"



definition top_pages_log :: "event list" where
  "top_pages_log =
     [event_example 1699999000000 ''/b'' ''s1'',
      event_example 1699999000001 ''/a'' ''s1'',
      event_example 1699999000002 ''/c'' ''s2'',
      event_example 1699999000003 ''/a'' ''s2'',
      event_example 1699999000004 ''/a'' ''s3'',
      event_example 1699999000005 ''/c'' ''s3'',
      event_example 1699999000006 ''/b'' ''s3'',
      event_example 1699999000007 ''/a'' ''s4'',
      event_example 1699999000008 ''/c'' ''s4'',
      event_example 1699999000009 ''/b'' ''s5'',
      event_example 1699999000010 ''/a'' ''s5'']"

text \<open>A \<open>Date\<close> in UTC, with day numbers and milliseconds of the day as the texts, and a URL
  parser for plain \<open>http\<close> and \<open>https\<close> URLs.\<close>

definition utc_hours :: "int \<Rightarrow> nat" where
  "utc_hours t = nat ((t div 3600000) mod 24)"

definition utc_day :: "int \<Rightarrow> string" where
  "utc_day t = dec_int (t div 86400000)"

definition utc_time :: "int \<Rightarrow> string" where
  "utc_time t = dec_int (t mod 86400000)"

definition days_before :: "int \<Rightarrow> nat \<Rightarrow> int" where
  "days_before t k = t - int k * 86400000"

definition example_dates :: date_api where
  "example_dates =
     \<lparr>getHours = utc_hours, toDateString = utc_day, toLocaleDateString = utc_day,
      toLocaleTimeString = utc_time, minusDays = days_before\<rparr>"

definition admin_body :: track_body where
  "admin_body = empty_body\<lparr>b_path := JStr ''/admin-dashboard.html''\<rparr>"

definition log_with_admin :: "event list" where
  "log_with_admin =
     [event_example 1699999000000 ''/'' ''s1'',
      event_example 1699999100000 ''/Admin/users'' ''s2'',
      event_example 1699999200000 ''/about.html'' ''s1'',
      event_example 1699999300000 ''/team/admin-tools.html'' ''s3'']"

definition log_with_old :: "event list" where
  "log_with_old =
     [event_example 1600000000000 ''/old.html'' ''s0'',
      event_example 1699999000000 ''/'' ''s1'',
      event_example 1699999200000 ''/about.html'' ''s1'']"

text \<open>An event three days before \<open>now = 1700000000000\<close> and one of the last hour.\<close>

definition log_with_days :: "event list" where
  "log_with_days =
     [event_example 1699740800000 ''/three-days.html'' ''s0'',
      event_example 1699999000000 ''/'' ''s1'']"

definition simple_hostname :: "string \<Rightarrow> string option" where
  "simple_hostname s =
     (let rest = (if prefix ''https://'' s then Some (drop 8 s)
                  else if prefix ''http://'' s then Some (drop 7 s) else None)
      in case rest of
           None \<Rightarrow> None
         | Some r \<Rightarrow>
             (let h = takeWhile (\<lambda>c. c \<noteq> CHR ''/'' \<and> c \<noteq> CHR ''?'' \<and> c \<noteq> CHR ''#'') r
              in if h = [] then None else Some h))"

definition tablet_event :: event where
  "tablet_event = (event_example 1699999000000 ''/'' ''s1'')\<lparr>e_device := JStr ''Mozilla/5.0 (iPad)''\<rparr>"

definition referrer_log :: "event list" where
  "referrer_log =
     [(event_example 1699999000000 ''/'' ''s1'')\<lparr>e_referrer := JStr ''https://www.google.com/search?q=x''\<rparr>,
      event_example 1699999000001 ''/'' ''s2'',
      (event_example 1699999000002 ''/'' ''s3'')\<lparr>e_referrer := JStr ''not a url''\<rparr>,
      (event_example 1699999000003 ''/'' ''s4'')\<lparr>e_referrer := JStr ''https://m.facebook.com/''\<rparr>,
      (event_example 1699999000004 ''/'' ''s5'')\<lparr>e_referrer := JStr ''https://example.org/page''\<rparr>]"

definition upload_example :: "string \<Rightarrow> int \<Rightarrow> nat \<Rightarrow> string \<Rightarrow> upload_file" where
  "upload_example nm t r u =
     \<lparr>originalname = nm, f_size = 1024, mimetype = ''image/png'', f_now = t, f_rnd = r,
      f_uuid = u, f_date = ''2023-11-14T22:13:20.000Z''\<rparr>"

section \<open>Facts about values and administrative paths\<close>

lemma not_admin_slash: "\<not> isAdminPath (JStr ''/'')"
  by code_simp

lemma digit_char_dec: "d < 10 \<Longrightarrow> dec_char (digit_char d)"
proof -
  assume "d < 10"
  then have "d \<in> set [0..<10]" by simp
  moreover have "list_all (\<lambda>d. dec_char (digit_char d)) [0..<10]"
    by code_simp
  ultimately show ?thesis
    unfolding list_all_iff by blast
qed

lemma dec_chars: "list_all dec_char (dec n)"
proof (induction n rule: dec.induct)
  case (1 n)
  show ?case
  proof (cases "n < 10")
    case True
    then have "dec n = [digit_char n]" by (simp add: dec.simps)
    with True show ?thesis by (simp add: digit_char_dec)
  next
    case False
    then have "dec n = dec (n div 10) @ [digit_char (n mod 10)]" by (simp add: dec.simps)
    moreover have "list_all dec_char (dec (n div 10))" using False by (rule "1.IH")
    moreover have "dec_char (digit_char (n mod 10))" by (rule digit_char_dec) simp
    ultimately show ?thesis by simp
  qed
qed

lemma dec_int_chars: "list_all dec_char (dec_int i)"
proof -
  have "dec_char CHR ''-''" by code_simp
  then show ?thesis by (simp add: dec_int_def dec_chars)
qed

lemma dec_char_lower: "dec_char c \<Longrightarrow> toLowerCase_char c = c"
proof -
  assume "dec_char c"
  then have "c \<in> set ''-0123456789''" by (simp only: dec_char_def)
  moreover have "list_all (\<lambda>c. toLowerCase_char c = c) ''-0123456789''"
    by code_simp
  ultimately show ?thesis
    unfolding list_all_iff by blast
qed

lemma toLowerCase_dec_int: "toLowerCase (dec_int i) = dec_int i"
proof -
  have "\<forall>c \<in> set (dec_int i). toLowerCase_char c = c"
    using dec_int_chars [of i] dec_char_lower unfolding list_all_iff by blast
  then show ?thesis
    unfolding toLowerCase_def by (simp add: map_idI)
qed

lemma not_admin_num: "\<not> isAdminPath (JNum n)"
proof
  assume "isAdminPath (JNum n)"
  then have "prefix ''/admin'' (dec_int n) \<or> sublist ''admin-'' (dec_int n)"
    by (simp add: isAdminPath_def Let_def default_to_def toLowerCase_dec_int startsWith_def includes_js_def)
  then have "set ''/admin'' \<subseteq> set (dec_int n) \<or> set ''admin-'' \<subseteq> set (dec_int n)"
    using set_mono_prefix [of "''/admin''" "dec_int n"] set_mono_sublist [of "''admin-''" "dec_int n"]
    by blast
  then have "CHR ''a'' \<in> set (dec_int n)"
    by auto
  then have "dec_char CHR ''a''"
    using dec_int_chars [of n] unfolding list_all_iff by blast
  moreover have "\<not> dec_char CHR ''a''" by code_simp
  ultimately show False by simp
qed

lemma not_admin_falsy: "\<not> truthy v \<Longrightarrow> \<not> isAdminPath v"
proof (cases v)
  case JUndefined
  show ?thesis unfolding JUndefined by code_simp
next
  case JNull
  show ?thesis unfolding JNull by code_simp
next
  case (JBool b)
  have "\<not> isAdminPath (JBool True)" "\<not> isAdminPath (JBool False)" by code_simp+
  then show ?thesis unfolding JBool by (cases b) auto
next
  case (JNum n)
  show ?thesis unfolding JNum by (rule not_admin_num)
next
  case (JStr s)
  assume "\<not> truthy v"
  with JStr have "s = []" by simp
  moreover have "\<not> isAdminPath (JStr [])" by code_simp
  ultimately show ?thesis using JStr by simp
qed

lemma finalPath_admin: "isAdminPath (b_path b) \<Longrightarrow> finalPath b = b_path b"
proof -
  assume a: "isAdminPath (b_path b)"
  then have t: "truthy (b_path b)" using not_admin_falsy by blast
  then have "b_path b \<noteq> JUndefined" by auto
  with t show ?thesis by (simp add: finalPath_def default_to_def js_or_def)
qed

lemma toLowerCase_markers:
  "toLowerCase ''/admin'' = ''/admin''" "toLowerCase ''admin-'' = ''admin-''"
  by code_simp+

lemma literal_admin:
  assumes "startsWith p ''/admin'' \<or> includes_js p ''admin-''"
  shows "isAdminPath (JStr p)"
proof -
  have a: "prefix (toLowerCase ''/admin'') (toLowerCase p)" if "prefix ''/admin'' p"
    unfolding toLowerCase_def using that by (rule map_mono_prefix)
  have b: "sublist (toLowerCase ''admin-'') (toLowerCase p)" if "sublist ''admin-'' p"
    unfolding toLowerCase_def using that by (rule map_mono_sublist)
  have "prefix ''/admin'' (toLowerCase p) \<or> sublist ''admin-'' (toLowerCase p)"
    using assms a b unfolding toLowerCase_markers startsWith_def includes_js_def by blast
  then show ?thesis
    unfolding isAdminPath_def Let_def default_to_def startsWith_def includes_js_def by simp
qed

lemma filterEvents_without_admin:
  "filterEvents now (filter (\<lambda>e. \<not> isAdminPath (e_path e)) events) period
     = filterEvents now events period"
proof (cases "windowMs period")
  case None
  then show ?thesis by (simp add: filterEvents_def)
next
  case (Some w)
  have "filter (\<lambda>e. e_ts e \<ge> now - w \<and> \<not> isAdminPath (e_path e))
          (filter (\<lambda>e. \<not> isAdminPath (e_path e)) events)
        = filter (\<lambda>e. e_ts e \<ge> now - w \<and> \<not> isAdminPath (e_path e)) events"
    by (induction events) auto
  with Some show ?thesis by (simp add: filterEvents_def)
qed

lemma filterEvents_not_admin:
  "e \<in> set (filterEvents now events period) \<Longrightarrow> \<not> isAdminPath (e_path e)"
  by (cases "windowMs period") (simp_all add: filterEvents_def)

section \<open>Facts about searching and removing in a list\<close>

lemma find_index_of_None: "find_index_of P xs = None \<longleftrightarrow> (\<forall>x \<in> set xs. \<not> P x)"
  by (induction xs) auto

lemma find_index_of_Some:
  "find_index_of P xs = Some i \<Longrightarrow>
     i < length xs \<and> P (xs ! i) \<and> (\<forall>x \<in> set (take i xs). \<not> P x)"
proof (induction xs arbitrary: i)
  case Nil
  then show ?case by simp
next
  case (Cons x xs)
  show ?case
  proof (cases "P x")
    case True
    with Cons.prems show ?thesis by simp
  next
    case False
    with Cons.prems obtain j where j: "find_index_of P xs = Some j" "i = Suc j"
      by auto
    from Cons.IH [OF j(1)] False j(2) show ?thesis by simp
  qed
qed

lemma filter_remove_at:
  assumes "distinct (map f xs)" "i < length xs"
  shows "filter (\<lambda>x. f x \<noteq> f (xs ! i)) xs = take i xs @ drop (Suc i) xs"
proof -
  have xs: "xs = take i xs @ xs ! i # drop (Suc i) xs"
    using assms(2) by (simp add: id_take_nth_drop)
  have d: "distinct (map f (take i xs) @ f (xs ! i) # map f (drop (Suc i) xs))"
    using assms(1) xs by (metis list.simps(9) map_append)
  have a: "filter (\<lambda>x. f x \<noteq> f (xs ! i)) (take i xs) = take i xs"
    using d by (auto simp: filter_id_conv image_iff)
  have b: "filter (\<lambda>x. f x \<noteq> f (xs ! i)) (drop (Suc i) xs) = drop (Suc i) xs"
    using d by (auto simp: filter_id_conv image_iff)
  have "filter (\<lambda>x. f x \<noteq> f (xs ! i)) xs
        = filter (\<lambda>x. f x \<noteq> f (xs ! i)) (take i xs @ xs ! i # drop (Suc i) xs)"
    using xs by simp
  also have "\<dots> = take i xs @ drop (Suc i) xs"
    using a b by simp
  finally show ?thesis .
qed

lemma delete_media_found:
  assumes "distinct (map m_id items)" and "ident \<in> set (map m_id items)"
  shows "\<exists>item. item \<in> set items \<and> m_id item = ident
           \<and> delete_media ident items
               = (DeleteOk, filter (\<lambda>m. m_id m \<noteq> ident) items,
                  [WriteMediaDb (filter (\<lambda>m. m_id m \<noteq> ident) items),
                   RemoveFile (m_storedName item)])"
proof -
  from assms(2) obtain idx where idx: "find_index_of (\<lambda>m. m_id m = ident) items = Some idx"
    by (cases "find_index_of (\<lambda>m. m_id m = ident) items") (auto simp: find_index_of_None)
  from find_index_of_Some [OF idx] have i: "idx < length items" "m_id (items ! idx) = ident"
    by auto
  have f: "take idx items @ drop (Suc idx) items = filter (\<lambda>m. m_id m \<noteq> ident) items"
    using filter_remove_at [of m_id items idx] assms(1) i by simp
  show ?thesis
    using idx i f by (intro exI [of _ "items ! idx"]) (simp add: delete_media_def Let_def)
qed

section \<open>Deleting from the media catalog\<close>

text \<open>
  Claim C4. Deleting an id that no record of the catalog has answers 404 not found,
  leaves the catalog as it was and touches nothing on disk: no catalog write, no file
  removal. The delete is not idempotent: in a catalog of distinct ids, a delete that
  succeeded is answered 404 when it is repeated, again with the catalog unchanged.
\<close>

theorem C4_delete_not_found:
  "(ident \<notin> set (map m_id items) \<longrightarrow> delete_media ident items = (NotFound404, items, []))
   \<and> (distinct (map m_id items) \<and> fst (delete_media ident items) = DeleteOk \<longrightarrow>
        delete_media ident (fst (snd (delete_media ident items)))
          = (NotFound404, fst (snd (delete_media ident items)), []))"
proof -
  have none: "delete_media i xs = (NotFound404, xs, [])" if "i \<notin> set (map m_id xs)" for i xs
  proof -
    from that have "find_index_of (\<lambda>m. m_id m = i) xs = None"
      by (auto simp: find_index_of_None)
    then show ?thesis by (simp add: delete_media_def)
  qed
  have again: "delete_media ident (fst (snd (delete_media ident items)))
          = (NotFound404, fst (snd (delete_media ident items)), [])"
    if a: "distinct (map m_id items) \<and> fst (delete_media ident items) = DeleteOk"
  proof -
    have "ident \<in> set (map m_id items)"
    proof (rule ccontr)
      assume "ident \<notin> set (map m_id items)"
      then have "fst (delete_media ident items) = NotFound404"
        using none by simp
      with a show False by simp
    qed
    with a delete_media_found [of items ident]
    have "fst (snd (delete_media ident items)) = filter (\<lambda>m. m_id m \<noteq> ident) items"
      by auto
    then have "ident \<notin> set (map m_id (fst (snd (delete_media ident items))))"
      by auto
    then show ?thesis by (rule none)
  qed
  show ?thesis
    using none again by blast
qed

theorem C4_delete_not_found_witness:
  "''id-x'' \<notin> set (map m_id [rec_A, rec_B])
   \<and> delete_media ''id-x'' [rec_A, rec_B] = (NotFound404, [rec_A, rec_B], [])
   \<and> fst (delete_media ''id-a'' [rec_A, rec_B]) = DeleteOk
   \<and> fst (snd (delete_media ''id-a'' [rec_A, rec_B])) = [rec_B]
   \<and> delete_media ''id-a'' [rec_B] = (NotFound404, [rec_B], [])"
proof -
  have h1: "''id-x'' \<notin> set (map m_id [rec_A, rec_B])"
    by (simp add: rec_A_def rec_B_def media_example_def)
  have h2: "distinct (map m_id [rec_A, rec_B])"
    by (simp add: rec_A_def rec_B_def media_example_def)
  have h3: "delete_media ''id-a'' [rec_A, rec_B]
            = (DeleteOk, [rec_B], [WriteMediaDb [rec_B], RemoveFile (m_storedName rec_A)])"
    by (simp add: delete_media_def Let_def rec_A_def rec_B_def media_example_def)
  show ?thesis
    using C4_delete_not_found [of "''id-x''" "[rec_A, rec_B]"]
      C4_delete_not_found [of "''id-a''" "[rec_A, rec_B]"] h1 h2 h3
    by simp
qed

text \<open>
  Claim C5. In a catalog \<open>[A, B, C]\<close> of distinct ids, deleting the id of \<open>B\<close> answers
  ok and leaves the catalog \<open>[A, C]\<close>, which is what is written to disk, and the stored
  file of \<open>B\<close> is the one removed. In any catalog of distinct ids, deleting an id that
  is there removes exactly the record of that id: the catalog after is the catalog before
  without it, one record shorter, the other records unchanged and in their order.
\<close>

theorem C5_delete_removes_exactly_one:
  "(distinct (map m_id [A, B, C]) \<longrightarrow>
      delete_media (m_id B) [A, B, C]
        = (DeleteOk, [A, C], [WriteMediaDb [A, C], RemoveFile (m_storedName B)]))
   \<and> (distinct (map m_id items) \<and> ident \<in> set (map m_id items) \<longrightarrow>
        (\<exists>item. item \<in> set items \<and> m_id item = ident
           \<and> delete_media ident items
               = (DeleteOk, filter (\<lambda>m. m_id m \<noteq> ident) items,
                  [WriteMediaDb (filter (\<lambda>m. m_id m \<noteq> ident) items),
                   RemoveFile (m_storedName item)]))
        \<and> length (filter (\<lambda>m. m_id m \<noteq> ident) items) + 1 = length items)"
proof -
  have abc: "delete_media (m_id B) [A, B, C]
        = (DeleteOk, [A, C], [WriteMediaDb [A, C], RemoveFile (m_storedName B)])"
    if "distinct (map m_id [A, B, C])"
    using that by (auto simp: delete_media_def Let_def)
  have len: "length (filter (\<lambda>m. m_id m \<noteq> ident) items) + 1 = length items"
    if d: "distinct (map m_id items)" and m: "ident \<in> set (map m_id items)"
  proof -
    from m obtain idx where idx: "find_index_of (\<lambda>m. m_id m = ident) items = Some idx"
      by (cases "find_index_of (\<lambda>m. m_id m = ident) items") (auto simp: find_index_of_None)
    from find_index_of_Some [OF idx] have i: "idx < length items" "m_id (items ! idx) = ident"
      by auto
    have "filter (\<lambda>m. m_id m \<noteq> ident) items = take idx items @ drop (Suc idx) items"
      using filter_remove_at [of m_id items idx] d i by simp
    then show ?thesis using i(1) by simp
  qed
  show ?thesis
    using abc len delete_media_found [of items ident] by blast
qed

theorem C5_delete_removes_exactly_one_witness:
  "distinct (map m_id [rec_A, rec_B, rec_C])
   \<and> delete_media ''id-b'' [rec_A, rec_B, rec_C]
       = (DeleteOk, [rec_A, rec_C],
          [WriteMediaDb [rec_A, rec_C], RemoveFile ''1700000000000-7-b.png''])
   \<and> filter (\<lambda>m. m_id m \<noteq> ''id-b'') [rec_A, rec_B, rec_C] = [rec_A, rec_C]"
proof -
  have h1: "distinct (map m_id [rec_A, rec_B, rec_C])"
    by (simp add: rec_A_def rec_B_def rec_C_def media_example_def)
  have h2: "m_id rec_B = ''id-b''" "m_storedName rec_B = ''1700000000000-7-b.png''"
    by (simp_all add: rec_B_def media_example_def)
  have h3: "''id-b'' \<in> set (map m_id [rec_A, rec_B, rec_C])"
    using h2 by simp
  have h4: "filter (\<lambda>m. m_id m \<noteq> ''id-b'') [rec_A, rec_B, rec_C] = [rec_A, rec_C]"
    by (simp add: rec_A_def rec_B_def rec_C_def media_example_def)
  show ?thesis
    using C5_delete_removes_exactly_one [of rec_A rec_B rec_C "[rec_A, rec_B, rec_C]" "''id-b''"]
      h1 h2 h3 h4
    by simp
qed

section \<open>The path of a tracked event\<close>

text \<open>
  Claim C10. When the body of a track request has no \<open>path\<close> field, the final path is
  \<open>/\<close> whatever the \<open>page\<close> field holds, and that is the path of the event the request
  stores. The \<open>page\<close> field is consulted only when \<open>path\<close> is present and falsy: if two
  values of \<open>page\<close> give different final paths, then \<open>path\<close> is not \<open>undefined\<close> and is
  falsy; and when \<open>path\<close> is \<open>null\<close> or the empty string the final path is
  \<open>page || '/'\<close>.
\<close>

theorem C10_path_default_precedes_page_fallback:
  "(b_path b = JUndefined \<longrightarrow> finalPath b = JStr ''/'')
   \<and> (req_body req = Some b \<and> b_path b = JUndefined \<and> read_ok env \<and> write_ok env \<longrightarrow>
        (\<exists>ev. track env req events = (TrackOk (uuid_event env), events @ [ev])
              \<and> e_path ev = JStr ''/''))
   \<and> (finalPath (b\<lparr>b_page := pg\<rparr>) \<noteq> finalPath (b\<lparr>b_page := pg'\<rparr>) \<longrightarrow>
        b_path b \<noteq> JUndefined \<and> \<not> truthy (b_path b))
   \<and> (b_path b = JNull \<or> b_path b = JStr '''' \<longrightarrow>
        finalPath b = js_or (b_page b) (JStr ''/''))"
proof -
  have c1: "b_path b = JUndefined \<longrightarrow> finalPath b = JStr ''/''"
    by (simp add: finalPath_def default_to_def js_or_def)
  have c2: "req_body req = Some b \<and> b_path b = JUndefined \<and> read_ok env \<and> write_ok env \<longrightarrow>
        (\<exists>ev. track env req events = (TrackOk (uuid_event env), events @ [ev])
              \<and> e_path ev = JStr ''/'')"
  proof
    assume a: "req_body req = Some b \<and> b_path b = JUndefined \<and> read_ok env \<and> write_ok env"
    then have fp: "finalPath b = JStr ''/''"
      using c1 by simp
    have "track env req events = (TrackOk (uuid_event env), events @ [make_event env req])"
      using a fp not_admin_slash by (simp add: track_def)
    moreover have "e_path (make_event env req) = JStr ''/''"
      using a fp by (simp add: make_event_def)
    ultimately show "\<exists>ev. track env req events = (TrackOk (uuid_event env), events @ [ev])
              \<and> e_path ev = JStr ''/''"
      by blast
  qed
  have c3: "finalPath (b\<lparr>b_page := pg\<rparr>) \<noteq> finalPath (b\<lparr>b_page := pg'\<rparr>) \<longrightarrow>
        b_path b \<noteq> JUndefined \<and> \<not> truthy (b_path b)"
    by (auto simp: finalPath_def default_to_def js_or_def split: if_splits)
  have c4: "b_path b = JNull \<or> b_path b = JStr '''' \<longrightarrow>
        finalPath b = js_or (b_page b) (JStr ''/'')"
    by (auto simp: finalPath_def default_to_def js_or_def)
  show ?thesis
    using c1 c2 c3 c4 by blast
qed

theorem C10_path_default_precedes_page_fallback_witness:
  "finalPath body_page_only = JStr ''/''
   \<and> (\<exists>ev. track example_env (request_of body_page_only) []
             = (TrackOk (uuid_event example_env), [] @ [ev]) \<and> e_path ev = JStr ''/'')
   \<and> finalPath (body_page_only\<lparr>b_path := JNull\<rparr>) = JStr ''/members.html''
   \<and> finalPath (body_page_only\<lparr>b_path := JStr ''''\<rparr>) = JStr ''/members.html''
   \<and> \<not> truthy (b_path (body_page_only\<lparr>b_path := JNull\<rparr>))"
proof -
  have p: "b_path body_page_only = JUndefined"
    by (simp add: body_page_only_def empty_body_def)
  have r: "req_body (request_of body_page_only) = Some body_page_only
           \<and> b_path body_page_only = JUndefined \<and> read_ok example_env \<and> write_ok example_env"
    by (simp add: request_of_def p example_env_def)
  have n: "b_path (body_page_only\<lparr>b_path := JNull\<rparr>) = JNull
           \<or> b_path (body_page_only\<lparr>b_path := JNull\<rparr>) = JStr ''''"
    by simp
  have e: "b_path (body_page_only\<lparr>b_path := JStr ''''\<rparr>) = JNull
           \<or> b_path (body_page_only\<lparr>b_path := JStr ''''\<rparr>) = JStr ''''"
    by simp
  have d: "finalPath (body_page_only\<lparr>b_path := JNull, b_page := JStr ''/a''\<rparr>)
           \<noteq> finalPath (body_page_only\<lparr>b_path := JNull, b_page := JStr ''/b''\<rparr>)"
    by (simp add: finalPath_def default_to_def js_or_def body_page_only_def empty_body_def)
  have pg: "js_or (b_page body_page_only) (JStr ''/'') = JStr ''/members.html''"
    by (simp add: js_or_def body_page_only_def empty_body_def)
  note t1 = C10_path_default_precedes_page_fallback
      [of body_page_only "request_of body_page_only" example_env "[]" "JNull" "JNull"]
  note t2 = C10_path_default_precedes_page_fallback
      [of "body_page_only\<lparr>b_path := JNull\<rparr>" "request_of body_page_only" example_env "[]"
          "JStr ''/a''" "JStr ''/b''"]
  note t3 = C10_path_default_precedes_page_fallback
      [of "body_page_only\<lparr>b_path := JStr ''''\<rparr>" "request_of body_page_only" example_env "[]"
          "JStr ''/a''" "JStr ''/b''"]
  show ?thesis
    using t1 t2 t3 p r n e d pg by simp
qed

section \<open>Facts about counting with a map\<close>

lemma set_first_occurrences [simp]: "set (first_occurrences xs) = set xs"
  by (induction xs) auto

lemma distinct_first_occurrences [simp]: "distinct (first_occurrences xs)"
  by (induction xs) auto

lemma first_occurrences_snoc:
  "first_occurrences (xs @ [x])
     = (if x \<in> set xs then first_occurrences xs else first_occurrences xs @ [x])"
  by (induction xs) auto

lemma map_set_tabulate:
  "distinct ks \<Longrightarrow>
   map_set (map (\<lambda>k. (k, c k)) ks) k v
     = (if k \<in> set ks then map (\<lambda>k'. (k', if k' = k then v else c k')) ks
        else map (\<lambda>k'. (k', c k')) ks @ [(k, v)])"
  by (induction ks) auto

lemma get_or_0_tabulate:
  "get_or_0 (map (\<lambda>k. (k, c k)) ks) k = (if k \<in> set ks then c k else 0)"
  by (induction ks) (auto simp: get_or_0_def)

lemma count_list_snoc: "count_list (ys @ [y]) k = count_list ys k + (if y = k then 1 else 0)"
  by (induction ys) auto

lemma count_list_0: "k \<notin> set ys \<Longrightarrow> count_list ys k = 0"
  by (induction ys) auto

lemma count_by_tabulate:
  "count_by f xs
     = map (\<lambda>k. (k, count_list (map f xs) k)) (first_occurrences (map f xs))"
proof (induction xs rule: rev_induct)
  case Nil
  show ?case by (simp add: count_by_def)
next
  case (snoc x xs)
  let ?ks = "first_occurrences (map f xs)"
  let ?c = "count_list (map f xs)"
  have step: "count_by f (xs @ [x])
                = map_set (count_by f xs) (f x) (get_or_0 (count_by f xs) (f x) + 1)"
    by (simp add: count_by_def)
  show ?case
  proof (cases "f x \<in> set (map f xs)")
    case True
    then have "count_by f (xs @ [x])
                 = map (\<lambda>k'. (k', if k' = f x then ?c (f x) + 1 else ?c k')) ?ks"
      using step snoc.IH by (simp add: map_set_tabulate get_or_0_tabulate)
    also have "\<dots> = map (\<lambda>k. (k, count_list (map f (xs @ [x])) k)) ?ks"
      by (auto simp: count_list_snoc)
    finally show ?thesis
      using True by (simp add: first_occurrences_snoc)
  next
    case False
    then have "count_by f (xs @ [x]) = map (\<lambda>k'. (k', ?c k')) ?ks @ [(f x, 1)]"
      using step snoc.IH by (simp add: map_set_tabulate get_or_0_tabulate)
    also have "map (\<lambda>k'. (k', ?c k')) ?ks
                 = map (\<lambda>k. (k, count_list (map f (xs @ [x])) k)) ?ks"
      using False by (auto simp: count_list_snoc)
    finally show ?thesis
      using False by (simp add: first_occurrences_snoc count_list_snoc count_list_0)
  qed
qed

lemma count_list_length_filter: "count_list (map f xs) k = length (filter (\<lambda>x. f x = k) xs)"
  by (induction xs) auto

section \<open>The bounce rate\<close>




subsection \<open>The error of rounding to a double\<close>






subsection \<open>The rounded permille is a nearest integer\<close>
















subsection \<open>A log with a percentage halfway between two tenths\<close>












section \<open>Top pages\<close>

lemma count_by_page_groups: "count_by e_path evs = page_groups evs"
  by (simp add: count_by_tabulate page_groups_def count_list_length_filter)

lemma topPages_page_groups:
  "topPages now q events
     = take 10 (sort_key (\<lambda>(p, c). - int c) (page_groups (filterEvents now events (query_period q))))"
  by (simp add: topPages_def Let_def count_by_page_groups)

lemma sort_desc_sorted:
  "sorted_wrt (\<lambda>a b. snd a \<ge> snd b) (sort_key (\<lambda>(p, c). - int c) (gs :: ('k \<times> nat) list))"
proof -
  have "sorted (map (\<lambda>(p, c). - int c) (sort_key (\<lambda>(p, c). - int c) gs))"
    by (rule sorted_sort_key)
  then show ?thesis
    by (simp add: sorted_map case_prod_beta)
qed

lemma sort_desc_stable:
  "filter (\<lambda>g. snd g = k) (sort_key (\<lambda>(p, c). - int c) (gs :: ('k \<times> nat) list))
     = filter (\<lambda>g. snd g = k) gs"
proof -
  have "filter (\<lambda>g. (case g of (p, c) \<Rightarrow> - int c) = - int k) (sort_key (\<lambda>(p, c). - int c) gs)
          = filter (\<lambda>g. (case g of (p, c) \<Rightarrow> - int c) = - int k) gs"
    by (rule sort_key_stable)
  moreover have "(\<lambda>g :: 'k \<times> nat. (case g of (p, c) \<Rightarrow> - int c) = - int k) = (\<lambda>g. snd g = k)"
    by (auto simp: fun_eq_iff)
  ultimately show ?thesis by simp
qed

lemma sorted3:
  assumes "set xs = {(a, 5::nat), (b, 3), (c, 3)}" "distinct xs" "length xs = 3"
    "sorted_wrt (\<lambda>x y. snd x \<ge> snd y) xs"
  shows "xs = [(a, 5), (b, 3), (c, 3)] \<or> xs = [(a, 5), (c, 3), (b, 3)]"
proof -
  from assms(3) obtain x y z where xs: "xs = [x, y, z]"
    by (auto simp: length_Suc_conv numeral_3_eq_3)
  have mem: "x \<in> {(a, 5), (b, 3), (c, 3)}" "y \<in> {(a, 5), (b, 3), (c, 3)}"
    "z \<in> {(a, 5), (b, 3), (c, 3)}"
    using assms(1) xs by auto
  have top: "(a, 5) \<in> {x, y, z}"
    using assms(1) xs by auto
  have d: "x \<noteq> y" "x \<noteq> z" "y \<noteq> z"
    using assms(2) xs by auto
  have s: "snd y \<le> snd x" "snd z \<le> snd x"
    using assms(4) xs by auto
  have xA: "x = (a, 5)"
  proof (rule ccontr)
    assume n: "x \<noteq> (a, 5)"
    then have "snd x = 3" using mem(1) by auto
    moreover have "snd y = 5 \<or> snd z = 5" using top n by auto
    ultimately show False using s by auto
  qed
  have "y = (b, 3) \<or> y = (c, 3)"
    using mem(2) d(1) xA by auto
  then show ?thesis
  proof
    assume y: "y = (b, 3)"
    then have "z = (c, 3)" using mem(3) d(2,3) xA by auto
    with xs xA y show ?thesis by simp
  next
    assume y: "y = (c, 3)"
    then have "z = (b, 3)" using mem(3) d(2,3) xA by auto
    with xs xA y show ?thesis by simp
  qed
qed

lemma page_groups_facts:
  "distinct (page_groups evs)"
  "length (page_groups evs) = card (set (map e_path evs))"
  "set (page_groups evs)
     = (\<lambda>p. (p, length (filter (\<lambda>e. e_path e = p) evs))) ` set (map e_path evs)"
proof -
  let ?g = "\<lambda>p. (p, length (filter (\<lambda>e. e_path e = p) evs))"
  have inj: "inj_on ?g A" for A
    by (auto simp: inj_on_def)
  show "distinct (page_groups evs)"
    unfolding page_groups_def by (simp add: distinct_map inj)
  have "length (page_groups evs) = length (first_occurrences (map e_path evs))"
    by (simp add: page_groups_def)
  also have "\<dots> = card (set (first_occurrences (map e_path evs)))"
    by (rule distinct_card [symmetric]) simp
  finally show "length (page_groups evs) = card (set (map e_path evs))"
    by simp
  show "set (page_groups evs) = ?g ` set (map e_path evs)"
    by (simp add: page_groups_def)
qed

text \<open>
  Claim C8. The top-pages operation groups the in-window events by path and counts
  them, orders the groups by descending count, keeps groups of equal count in the order
  in which their paths first occur among the events (the sort is stable), and returns
  the first ten at most. With five events for \<open>/a\<close> and three each for \<open>/b\<close> and \<open>/c\<close>
  and no other path in the window, it returns \<open>/a\<close> with 5 first, then \<open>/b\<close> and \<open>/c\<close>
  with 3 each in one of the two orders, and nothing else.
\<close>

theorem C8_top_pages:
  "topPages now q events
     = take 10 (sort_key (\<lambda>(p, c). - int c) (page_groups (filterEvents now events (query_period q))))
   \<and> sorted_wrt (\<lambda>a b. snd a \<ge> snd b) (topPages now q events)
   \<and> prefix (filter (\<lambda>g. snd g = k) (topPages now q events))
             (filter (\<lambda>g. snd g = k) (page_groups (filterEvents now events (query_period q))))
   \<and> length (topPages now q events) \<le> 10
   \<and> (set (map e_path (filterEvents now events (query_period q)))
          = {JStr ''/a'', JStr ''/b'', JStr ''/c''}
        \<and> length (filter (\<lambda>e. e_path e = JStr ''/a'') (filterEvents now events (query_period q))) = 5
        \<and> length (filter (\<lambda>e. e_path e = JStr ''/b'') (filterEvents now events (query_period q))) = 3
        \<and> length (filter (\<lambda>e. e_path e = JStr ''/c'') (filterEvents now events (query_period q))) = 3
      \<longrightarrow> topPages now q events = [(JStr ''/a'', 5), (JStr ''/b'', 3), (JStr ''/c'', 3)]
          \<or> topPages now q events = [(JStr ''/a'', 5), (JStr ''/c'', 3), (JStr ''/b'', 3)])"
proof -
  let ?evs = "filterEvents now events (query_period q)"
  let ?full = "sort_key (\<lambda>(p, c). - int c) (page_groups ?evs)"
  have a: "topPages now q events = take 10 ?full"
    by (rule topPages_page_groups)
  have b: "sorted_wrt (\<lambda>a b. snd a \<ge> snd b) (topPages now q events)"
    unfolding a using sort_desc_sorted [of "page_groups ?evs"] by (rule sorted_wrt_take)
  have "prefix (take 10 ?full) ?full"
    by (rule take_is_prefix)
  then have "prefix (filter (\<lambda>g. snd g = k) (take 10 ?full)) (filter (\<lambda>g. snd g = k) ?full)"
    by (rule filter_mono_prefix)
  then have c: "prefix (filter (\<lambda>g. snd g = k) (topPages now q events))
                  (filter (\<lambda>g. snd g = k) (page_groups ?evs))"
    unfolding a sort_desc_stable .
  have d: "length (topPages now q events) \<le> 10"
    unfolding a by simp
  have e: "topPages now q events = [(JStr ''/a'', 5), (JStr ''/b'', 3), (JStr ''/c'', 3)]
          \<or> topPages now q events = [(JStr ''/a'', 5), (JStr ''/c'', 3), (JStr ''/b'', 3)]"
    if h: "set (map e_path ?evs) = {JStr ''/a'', JStr ''/b'', JStr ''/c''}
        \<and> length (filter (\<lambda>e. e_path e = JStr ''/a'') ?evs) = 5
        \<and> length (filter (\<lambda>e. e_path e = JStr ''/b'') ?evs) = 3
        \<and> length (filter (\<lambda>e. e_path e = JStr ''/c'') ?evs) = 3"
  proof -
    have s: "set ?full = {(JStr ''/a'', 5), (JStr ''/b'', 3), (JStr ''/c'', 3)}"
      using h by (simp add: page_groups_facts(3))
    have di: "distinct ?full"
      by (simp add: page_groups_facts(1))
    have "card (set (map e_path ?evs)) = 3"
      using h by simp
    then have l: "length ?full = 3"
      by (simp add: page_groups_facts(2))
    have "?full = [(JStr ''/a'', 5), (JStr ''/b'', 3), (JStr ''/c'', 3)]
          \<or> ?full = [(JStr ''/a'', 5), (JStr ''/c'', 3), (JStr ''/b'', 3)]"
      using s di l sort_desc_sorted [of "page_groups ?evs"] by (rule sorted3)
    then show ?thesis
      unfolding a by auto
  qed
  show ?thesis
    using a b c d e by blast
qed

theorem C8_top_pages_witness:
  "set (map e_path (filterEvents 1700000000000 top_pages_log (query_period None)))
          = {JStr ''/a'', JStr ''/b'', JStr ''/c''}
   \<and> page_groups (filterEvents 1700000000000 top_pages_log (query_period None))
       = [(JStr ''/b'', 3), (JStr ''/a'', 5), (JStr ''/c'', 3)]
   \<and> topPages 1700000000000 None top_pages_log
       = [(JStr ''/a'', 5), (JStr ''/b'', 3), (JStr ''/c'', 3)]"
proof -
  have w1: "filterEvents 1700000000000 top_pages_log (query_period None) = top_pages_log"
    by code_simp
  have w2: "set (map e_path top_pages_log) = {JStr ''/a'', JStr ''/b'', JStr ''/c''}"
    by code_simp
  have w3: "length (filter (\<lambda>e. e_path e = JStr ''/a'') top_pages_log) = 5
        \<and> length (filter (\<lambda>e. e_path e = JStr ''/b'') top_pages_log) = 3
        \<and> length (filter (\<lambda>e. e_path e = JStr ''/c'') top_pages_log) = 3"
    by code_simp
  have w4: "topPages 1700000000000 None top_pages_log
              \<noteq> [(JStr ''/a'', 5), (JStr ''/c'', 3), (JStr ''/b'', 3)]"
    by code_simp
  have w5: "page_groups top_pages_log = [(JStr ''/b'', 3), (JStr ''/a'', 5), (JStr ''/c'', 3)]"
    by code_simp
  show ?thesis
    using C8_top_pages [of 1700000000000 None top_pages_log 3] w1 w2 w3 w4 w5 by simp
qed

section \<open>Administrative paths and the time window in the queries\<close>

lemma summary_of_filterEvents:
  "filterEvents now xs (query_period q) = filterEvents now ys (query_period q)
   \<Longrightarrow> summary_of now q xs = summary_of now q ys"
  by (simp add: summary_of_def)

lemma timeseries_filterEvents:
  "filterEvents now xs (query_period q) = filterEvents now ys (query_period q)
   \<Longrightarrow> timeseries dt now q xs = timeseries dt now q ys"
  by (simp add: timeseries_def)

lemma topPages_filterEvents:
  "filterEvents now xs (query_period q) = filterEvents now ys (query_period q)
   \<Longrightarrow> topPages now q xs = topPages now q ys"
  by (simp add: topPages_def)

lemma sources_filterEvents:
  "filterEvents now xs (query_period q) = filterEvents now ys (query_period q)
   \<Longrightarrow> sources hn now q xs = sources hn now q ys"
  by (simp add: sources_def)

lemma devices_filterEvents:
  "filterEvents now xs (query_period q) = filterEvents now ys (query_period q)
   \<Longrightarrow> devices now q xs = devices now q ys"
  by (simp add: devices_def)

lemma topPages_paths:
  assumes "g \<in> set (topPages now q events)"
  shows "\<exists>e \<in> set (filterEvents now events (query_period q)). e_path e = fst g"
proof -
  let ?evs = "filterEvents now events (query_period q)"
  have "g \<in> set (sort_key (\<lambda>(p, c). - int c) (page_groups ?evs))"
    using assms in_set_takeD unfolding topPages_page_groups by fast
  then have "g \<in> set (page_groups ?evs)" by simp
  then have "fst g \<in> set (map e_path ?evs)"
    unfolding page_groups_facts(3) by auto
  then show ?thesis by auto
qed

text \<open>
  Claim C1. A track request whose \<open>path\<close> starts with \<open>/admin\<close> or contains
  \<open>admin-\<close>, and more generally one whose \<open>path\<close> is an administrative path (the test
  is made on the lower-cased text), is answered with the success acknowledgment that
  carries \<open>ignored: true\<close>, and the event log is left as it was. The summary,
  timeseries and top-pages queries give the same result on a log as on the log without
  its administrative events, so that no such event shows in them even when the log
  holds one, and no entry of top-pages has an administrative path.
\<close>

theorem C1_admin_paths_ignored:
  "(req_body req = Some b \<and> b_path b = JStr p
      \<and> (startsWith p ''/admin'' \<or> includes_js p ''admin-'') \<longrightarrow>
      track env req events = (TrackIgnored, events))
   \<and> (req_body req = Some b \<and> isAdminPath (b_path b) \<longrightarrow>
      track env req events = (TrackIgnored, events))
   \<and> summary_of now q events
       = summary_of now q (filter (\<lambda>e. \<not> isAdminPath (e_path e)) events)
   \<and> timeseries dt now q events
       = timeseries dt now q (filter (\<lambda>e. \<not> isAdminPath (e_path e)) events)
   \<and> topPages now q events
       = topPages now q (filter (\<lambda>e. \<not> isAdminPath (e_path e)) events)
   \<and> (\<forall>g \<in> set (topPages now q events). \<not> isAdminPath (fst g))"
proof -
  let ?clean = "filter (\<lambda>e. \<not> isAdminPath (e_path e)) events"
  have c2: "req_body req = Some b \<and> isAdminPath (b_path b) \<longrightarrow>
      track env req events = (TrackIgnored, events)"
    by (auto simp: track_def finalPath_admin)
  have c1: "req_body req = Some b \<and> b_path b = JStr p
      \<and> (startsWith p ''/admin'' \<or> includes_js p ''admin-'') \<longrightarrow>
      track env req events = (TrackIgnored, events)"
    using c2 literal_admin [of p] by auto
  have f: "filterEvents now events (query_period q) = filterEvents now ?clean (query_period q)"
    by (rule filterEvents_without_admin [symmetric])
  have c3: "summary_of now q events = summary_of now q ?clean"
    using f by (rule summary_of_filterEvents)
  have c4: "timeseries dt now q events = timeseries dt now q ?clean"
    using f by (rule timeseries_filterEvents)
  have c5: "topPages now q events = topPages now q ?clean"
    using f by (rule topPages_filterEvents)
  have c6: "\<forall>g \<in> set (topPages now q events). \<not> isAdminPath (fst g)"
    using topPages_paths filterEvents_not_admin by metis
  show ?thesis
    using c1 c2 c3 c4 c5 c6 by blast
qed

theorem C1_admin_paths_ignored_witness:
  "track example_env (request_of admin_body) bounce_log = (TrackIgnored, bounce_log)
   \<and> isAdminPath (JStr ''/Admin/users'')
   \<and> track example_env (request_of (empty_body\<lparr>b_path := JStr ''/Admin/users''\<rparr>)) bounce_log
       = (TrackIgnored, bounce_log)
   \<and> filter (\<lambda>e. \<not> isAdminPath (e_path e)) log_with_admin
       = [event_example 1699999000000 ''/'' ''s1'',
          event_example 1699999200000 ''/about.html'' ''s1'']
   \<and> topPages 1700000000000 None log_with_admin
       = [(JStr ''/'', 1), (JStr ''/about.html'', 1)]
   \<and> pageViews (summary_of 1700000000000 None log_with_admin) = 2
   \<and> visitors (summary_of 1700000000000 None log_with_admin) = 1"
proof -
  have h1: "req_body (request_of admin_body) = Some admin_body"
    "req_body (request_of (empty_body\<lparr>b_path := JStr ''/Admin/users''\<rparr>))
       = Some (empty_body\<lparr>b_path := JStr ''/Admin/users''\<rparr>)"
    by (simp_all add: request_of_def)
  have h2: "b_path admin_body = JStr ''/admin-dashboard.html''"
    "b_path (empty_body\<lparr>b_path := JStr ''/Admin/users''\<rparr>) = JStr ''/Admin/users''"
    by (simp_all add: admin_body_def)
  have h3: "startsWith ''/admin-dashboard.html'' ''/admin''
            \<or> includes_js ''/admin-dashboard.html'' ''admin-''"
    by code_simp
  have h3': "isAdminPath (JStr ''/Admin/users'')"
    by code_simp
  have h4: "filter (\<lambda>e. \<not> isAdminPath (e_path e)) log_with_admin
       = [event_example 1699999000000 ''/'' ''s1'',
          event_example 1699999200000 ''/about.html'' ''s1'']"
    by code_simp
  have h5: "topPages 1700000000000 None
              [event_example 1699999000000 ''/'' ''s1'',
               event_example 1699999200000 ''/about.html'' ''s1'']
            = [(JStr ''/'', 1), (JStr ''/about.html'', 1)]"
    by code_simp
  have h6: "summary_of 1700000000000 None
              [event_example 1699999000000 ''/'' ''s1'',
               event_example 1699999200000 ''/about.html'' ''s1'']
            = \<lparr>visitors = 1, pageViews = 2, avgSession = JNull, bounceRate = 0,
               newMembers = JNull, mobileTraffic = JNull\<rparr>"
    by code_simp
  note t1 = C1_admin_paths_ignored
      [of "request_of admin_body" admin_body "''/admin-dashboard.html''" example_env bounce_log
          1700000000000 None example_dates]
  note t2 = C1_admin_paths_ignored
      [of "request_of (empty_body\<lparr>b_path := JStr ''/Admin/users''\<rparr>)"
          "empty_body\<lparr>b_path := JStr ''/Admin/users''\<rparr>" "''/Admin/users''" example_env
          bounce_log 1700000000000 None example_dates]
  note t3 = C1_admin_paths_ignored
      [of "request_of admin_body" admin_body "''/admin-dashboard.html''" example_env
          log_with_admin 1700000000000 None example_dates]
  have a: "track example_env (request_of admin_body) bounce_log = (TrackIgnored, bounce_log)"
    using t1 h1 h2 h3 by blast
  have b: "track example_env (request_of (empty_body\<lparr>b_path := JStr ''/Admin/users''\<rparr>))
             bounce_log = (TrackIgnored, bounce_log)"
    using t2 h1 h2 h3' by simp
  show ?thesis
    using a b t3 h3' h4 h5 h6 by simp
qed

lemma filterEvents_in_window:
  assumes "windowMs period = Some w"
  shows "filterEvents now (filter (\<lambda>e. \<not> e_ts e < now - w) events) period
           = filterEvents now events period"
proof -
  have "filter (\<lambda>e. e_ts e \<ge> now - w \<and> \<not> isAdminPath (e_path e))
          (filter (\<lambda>e. \<not> e_ts e < now - w) events)
        = filter (\<lambda>e. e_ts e \<ge> now - w \<and> \<not> isAdminPath (e_path e)) events"
    by (induction events) auto
  with assms show ?thesis by (simp add: filterEvents_def)
qed

lemma realtime_last_20:
  "realtime dt events = map (realtime_row_of dt) (take 20 (rev events))"
proof -
  have "take 20 (rev (drop (length events - 50) events)) = take 20 (rev events)"
  proof (cases "length events \<le> 50")
    case True
    then show ?thesis by simp
  next
    case False
    then have "length events - (length events - 50) = 50" by arith
    then have "rev (drop (length events - 50) events) = take 50 (rev events)"
      by (simp add: rev_drop)
    then show ?thesis by simp
  qed
  then show ?thesis
    by (simp only: realtime_def)
qed

text \<open>
  Claim C3. The periods \<open>1d\<close>, \<open>7d\<close>, \<open>30d\<close>, \<open>90d\<close> and \<open>1y\<close> have windows of 1,
  7, 30, 90 and 365 days, and a request that names one of them gets that window; a
  request without a period gets 7 days, and a period of the request that is not empty is
  the period looked up. When the period of the request has window duration \<open>w\<close>, no
  event with \<open>ts\<close> older than \<open>now - w\<close> passes the filter, every such event of the log
  is absent from the filtered events, and such events have no part in the summary,
  timeseries, top-pages, sources and devices results: each is the same on the log as on
  the log without those events. The realtime operation takes no window: it returns the
  rows of the last 20 events of the log (all of them when there are fewer), the most
  recent first, every row with the placeholder for \<open>location\<close> and for \<open>duration\<close>.
\<close>

theorem C3_window_and_realtime:
  "map windowMs [''1d'', ''7d'', ''30d'', ''90d'', ''1y'']
     = [Some 86400000, Some 604800000, Some 2592000000, Some 7776000000, Some 31536000000]
   \<and> map (\<lambda>t. windowMs (query_period (Some t))) [''1d'', ''7d'', ''30d'', ''90d'', ''1y'']
     = [Some 86400000, Some 604800000, Some 2592000000, Some 7776000000, Some 31536000000]
   \<and> windowMs (query_period None) = Some 604800000
   \<and> (t \<noteq> [] \<longrightarrow> query_period (Some t) = t)
   \<and> (windowMs (query_period q) = Some w \<longrightarrow>
      (\<forall>e \<in> set (filterEvents now events (query_period q)). \<not> e_ts e < now - w)
      \<and> (\<forall>e \<in> set events. e_ts e < now - w \<longrightarrow>
            e \<notin> set (filterEvents now events (query_period q)))
      \<and> summary_of now q events
        = summary_of now q (filter (\<lambda>e. \<not> e_ts e < now - w) events)
      \<and> timeseries dt now q events
        = timeseries dt now q (filter (\<lambda>e. \<not> e_ts e < now - w) events)
      \<and> topPages now q events
        = topPages now q (filter (\<lambda>e. \<not> e_ts e < now - w) events)
      \<and> sources hn now q events
        = sources hn now q (filter (\<lambda>e. \<not> e_ts e < now - w) events)
      \<and> devices now q events
        = devices now q (filter (\<lambda>e. \<not> e_ts e < now - w) events))
   \<and> realtime dt events = map (realtime_row_of dt) (take 20 (rev events))
   \<and> length (realtime dt events) = min 20 (length events)
   \<and> (\<forall>r \<in> set (realtime dt events). rt_location r = em_dash \<and> rt_duration r = em_dash)"
proof -
  let ?recent = "filter (\<lambda>e. \<not> e_ts e < now - w) events"
  have tokens: "map windowMs [''1d'', ''7d'', ''30d'', ''90d'', ''1y'']
     = [Some 86400000, Some 604800000, Some 2592000000, Some 7776000000, Some 31536000000]"
    by code_simp
  have requested: "map (\<lambda>t. windowMs (query_period (Some t))) [''1d'', ''7d'', ''30d'', ''90d'', ''1y'']
     = [Some 86400000, Some 604800000, Some 2592000000, Some 7776000000, Some 31536000000]"
    by code_simp
  have absent: "windowMs (query_period None) = Some 604800000"
    by code_simp
  have given: "t \<noteq> [] \<longrightarrow> query_period (Some t) = t"
    by (simp add: query_period_def)
  have win: "(\<forall>e \<in> set (filterEvents now events (query_period q)). \<not> e_ts e < now - w)
      \<and> (\<forall>e \<in> set events. e_ts e < now - w \<longrightarrow>
            e \<notin> set (filterEvents now events (query_period q)))
      \<and> summary_of now q events = summary_of now q ?recent
      \<and> timeseries dt now q events = timeseries dt now q ?recent
      \<and> topPages now q events = topPages now q ?recent
      \<and> sources hn now q events = sources hn now q ?recent
      \<and> devices now q events = devices now q ?recent"
    if h: "windowMs (query_period q) = Some w"
  proof -
    have f: "filterEvents now events (query_period q) = filterEvents now ?recent (query_period q)"
      using h by (rule filterEvents_in_window [symmetric])
    have o: "\<forall>e \<in> set (filterEvents now events (query_period q)). \<not> e_ts e < now - w"
      using h by (auto simp: filterEvents_def)
    have o': "\<forall>e \<in> set events. e_ts e < now - w \<longrightarrow>
            e \<notin> set (filterEvents now events (query_period q))"
      using o by blast
    have a: "summary_of now q events = summary_of now q ?recent"
      using f by (rule summary_of_filterEvents)
    have b: "timeseries dt now q events = timeseries dt now q ?recent"
      using f by (rule timeseries_filterEvents)
    have c: "topPages now q events = topPages now q ?recent"
      using f by (rule topPages_filterEvents)
    have d: "sources hn now q events = sources hn now q ?recent"
      using f by (rule sources_filterEvents)
    have e: "devices now q events = devices now q ?recent"
      using f by (rule devices_filterEvents)
    show ?thesis
      using o o' a b c d e by (intro conjI)
  qed
  have r1: "realtime dt events = map (realtime_row_of dt) (take 20 (rev events))"
    by (rule realtime_last_20)
  have r2: "length (realtime dt events) = min 20 (length events)"
    unfolding r1 by simp
  have r3: "\<forall>r \<in> set (realtime dt events). rt_location r = em_dash \<and> rt_duration r = em_dash"
    unfolding r1 by (auto simp: realtime_row_of_def)
  show ?thesis
    using tokens requested absent given win r1 r2 r3 by blast
qed

theorem C3_window_and_realtime_witness:
  "windowMs (query_period None) = Some 604800000
   \<and> filter (\<lambda>e. \<not> e_ts e < 1700000000000 - 604800000) log_with_old
       = [event_example 1699999000000 ''/'' ''s1'',
          event_example 1699999200000 ''/about.html'' ''s1'']
   \<and> topPages 1700000000000 None log_with_old = [(JStr ''/'', 1), (JStr ''/about.html'', 1)]
   \<and> pageViews (summary_of 1700000000000 None log_with_old) = 2
   \<and> devices 1700000000000 None log_with_old = [(''Desktop'', 2)]
   \<and> map rt_page (realtime example_dates log_with_old)
       = [JStr ''/about.html'', JStr ''/'', JStr ''/old.html'']
   \<and> length (realtime example_dates log_with_old) = 3
   \<and> query_period (Some ''1d'') = ''1d''
   \<and> windowMs (query_period (Some ''1d'')) = Some 86400000
   \<and> event_example 1699740800000 ''/three-days.html'' ''s0'' \<in> set log_with_days
   \<and> event_example 1699740800000 ''/three-days.html'' ''s0''
       \<notin> set (filterEvents 1700000000000 log_with_days (query_period (Some ''1d'')))
   \<and> topPages 1700000000000 (Some ''1d'') log_with_days = [(JStr ''/'', 1)]
   \<and> pageViews (summary_of 1700000000000 (Some ''1d'') log_with_days) = 1
   \<and> topPages 1700000000000 (Some ''7d'') log_with_days
       = [(JStr ''/three-days.html'', 1), (JStr ''/'', 1)]
   \<and> map rt_page (realtime example_dates log_with_days)
       = [JStr ''/'', JStr ''/three-days.html'']"
proof -
  have h1: "windowMs (query_period None) = Some 604800000"
    by code_simp
  have h2: "filter (\<lambda>e. \<not> e_ts e < 1700000000000 - 604800000) log_with_old
       = [event_example 1699999000000 ''/'' ''s1'',
          event_example 1699999200000 ''/about.html'' ''s1'']"
    by code_simp
  have h3: "topPages 1700000000000 None
              [event_example 1699999000000 ''/'' ''s1'',
               event_example 1699999200000 ''/about.html'' ''s1'']
            = [(JStr ''/'', 1), (JStr ''/about.html'', 1)]"
    by code_simp
  have h4: "pageViews (summary_of 1700000000000 None
              [event_example 1699999000000 ''/'' ''s1'',
               event_example 1699999200000 ''/about.html'' ''s1'']) = 2"
    by code_simp
  have h5: "devices 1700000000000 None
              [event_example 1699999000000 ''/'' ''s1'',
               event_example 1699999200000 ''/about.html'' ''s1''] = [(''Desktop'', 2)]"
    by code_simp
  have h6: "map rt_page (map (realtime_row_of example_dates) (take 20 (rev log_with_old)))
       = [JStr ''/about.html'', JStr ''/'', JStr ''/old.html'']"
    by (simp add: log_with_old_def realtime_row_of_def event_example_def)
  have h7: "min 20 (length log_with_old) = 3"
    by code_simp
  have d1: "windowMs (query_period (Some ''1d'')) = Some 86400000"
    by code_simp
  have d2: "filter (\<lambda>e. \<not> e_ts e < 1700000000000 - 86400000) log_with_days
       = [event_example 1699999000000 ''/'' ''s1'']"
    by code_simp
  have d3: "topPages 1700000000000 (Some ''1d'') [event_example 1699999000000 ''/'' ''s1'']
            = [(JStr ''/'', 1)]"
    by code_simp
  have d4: "pageViews (summary_of 1700000000000 (Some ''1d'')
              [event_example 1699999000000 ''/'' ''s1'']) = 1"
    by code_simp
  have d5: "event_example 1699740800000 ''/three-days.html'' ''s0'' \<in> set log_with_days"
    by (simp add: log_with_days_def)
  have d6: "e_ts (event_example 1699740800000 ''/three-days.html'' ''s0'')
              < 1700000000000 - 86400000"
    by (simp add: event_example_def)
  have d7: "topPages 1700000000000 (Some ''7d'') log_with_days
       = [(JStr ''/three-days.html'', 1), (JStr ''/'', 1)]"
    by code_simp
  have d8: "map rt_page (map (realtime_row_of example_dates) (take 20 (rev log_with_days)))
       = [JStr ''/'', JStr ''/three-days.html'']"
    by (simp add: log_with_days_def realtime_row_of_def event_example_def)
  have d9: "''1d'' \<noteq> []"
    by simp
  note t = C3_window_and_realtime
      [of "''1d''" None 604800000 1700000000000 log_with_old example_dates simple_hostname]
  note u = C3_window_and_realtime
      [of "''1d''" "Some ''1d''" 86400000 1700000000000 log_with_days example_dates
          simple_hostname]
  have a: "topPages 1700000000000 None log_with_old = [(JStr ''/'', 1), (JStr ''/about.html'', 1)]
     \<and> pageViews (summary_of 1700000000000 None log_with_old) = 2
     \<and> devices 1700000000000 None log_with_old = [(''Desktop'', 2)]
     \<and> map rt_page (realtime example_dates log_with_old)
       = [JStr ''/about.html'', JStr ''/'', JStr ''/old.html'']
     \<and> length (realtime example_dates log_with_old) = 3"
    using t h1 h2 h3 h4 h5 h6 h7 by simp
  have b1: "query_period (Some ''1d'') = ''1d''"
    using u d9 by blast
  have b2: "event_example 1699740800000 ''/three-days.html'' ''s0''
       \<notin> set (filterEvents 1700000000000 log_with_days (query_period (Some ''1d'')))"
    using u d1 d5 d6 by blast
  have b3: "topPages 1700000000000 (Some ''1d'') log_with_days = [(JStr ''/'', 1)]
     \<and> pageViews (summary_of 1700000000000 (Some ''1d'') log_with_days) = 1
     \<and> map rt_page (realtime example_dates log_with_days)
       = [JStr ''/'', JStr ''/three-days.html'']"
    using u d1 d2 d3 d4 d8 by simp
  show ?thesis
    using h1 h2 a b1 d1 d5 b2 b3 d7 by simp
qed

section \<open>Devices and sources\<close>

lemma set_count_by:
  "set (count_by f xs) = (\<lambda>k. (k, length (filter (\<lambda>x. f x = k) xs))) ` f ` set xs"
  by (simp add: count_by_tabulate count_list_length_filter)

lemma sum_count_by: "sum_list (map snd (count_by f xs)) = length xs"
proof -
  let ?ys = "map f xs"
  have "map snd (count_by f xs) = map (count_list ?ys) (first_occurrences ?ys)"
    by (simp add: count_by_tabulate comp_def)
  then have "sum_list (map snd (count_by f xs)) = sum (count_list ?ys) (set (first_occurrences ?ys))"
    by (simp add: sum_list_distinct_conv_sum_set)
  also have "\<dots> = length ?ys"
    by (simp add: sum_count_set)
  finally show ?thesis by simp
qed

lemma no_mobile_in_empty: "\<not> regex_i_test [''Mobile'', ''Android'', ''iPhone''] ''''"
  by code_simp

text \<open>
  Claim C9. The realtime operation never reports the device class \<open>Tablet\<close>: no row
  it builds has it. For an event whose device text matches \<open>Tablet\<close> or \<open>iPad\<close> and
  none of \<open>Mobile\<close>, \<open>Android\<close>, \<open>iPhone\<close>, the classifier of the devices operation
  gives \<open>Tablet\<close>, and the devices result has a \<open>Tablet\<close> entry when the event is in
  the window, while the realtime row of the same event says \<open>Desktop\<close>.
\<close>

theorem C9_realtime_never_tablet:
  "rt_device (realtime_row_of dt e) \<noteq> ''Tablet''
   \<and> (\<forall>r \<in> set (realtime dt events). rt_device r \<noteq> ''Tablet'')
   \<and> (regex_i_test [''Tablet'', ''iPad''] (ToString (default_to (e_device e) (JStr '''')))
      \<and> \<not> regex_i_test [''Mobile'', ''Android'', ''iPhone'']
             (ToString (default_to (e_device e) (JStr '''')))
      \<longrightarrow> deviceOf (e_device e) = ''Tablet''
          \<and> rt_device (realtime_row_of dt e) = ''Desktop''
          \<and> (e \<in> set (filterEvents now events (query_period q)) \<longrightarrow>
                (\<exists>c. 0 < c \<and> (''Tablet'', c) \<in> set (devices now q events))))"
proof -
  have never: "rt_device (realtime_row_of dt x) \<noteq> ''Tablet''" for x
    by (simp add: realtime_row_of_def)
  have all: "\<forall>r \<in> set (realtime dt events). rt_device r \<noteq> ''Tablet''"
    using never by (auto simp: realtime_def)
  have tablet: "deviceOf (e_device e) = ''Tablet''
          \<and> rt_device (realtime_row_of dt e) = ''Desktop''
          \<and> (e \<in> set (filterEvents now events (query_period q)) \<longrightarrow>
                (\<exists>c. 0 < c \<and> (''Tablet'', c) \<in> set (devices now q events)))"
    if h: "regex_i_test [''Tablet'', ''iPad''] (ToString (default_to (e_device e) (JStr '''')))
      \<and> \<not> regex_i_test [''Mobile'', ''Android'', ''iPhone'']
             (ToString (default_to (e_device e) (JStr '''')))"
  proof -
    have d: "deviceOf (e_device e) = ''Tablet''"
      using h by (simp add: deviceOf_def Let_def)
    have "\<not> regex_i_test [''Mobile'', ''Android'', ''iPhone'']
             (ToString (js_or (e_device e) (JStr '''')))"
    proof (cases "truthy (e_device e)")
      case True
      then have "js_or (e_device e) (JStr '''') = default_to (e_device e) (JStr '''')"
        by (auto simp: js_or_def default_to_def)
      with h show ?thesis by simp
    next
      case False
      then show ?thesis using no_mobile_in_empty by (simp add: js_or_def)
    qed
    then have r: "rt_device (realtime_row_of dt e) = ''Desktop''"
      by (simp add: realtime_row_of_def)
    have g: "\<exists>c. 0 < c \<and> (''Tablet'', c) \<in> set (devices now q events)"
      if m: "e \<in> set (filterEvents now events (query_period q))"
    proof -
      let ?evs = "filterEvents now events (query_period q)"
      let ?c = "length (filter (\<lambda>x. deviceOf (e_device x) = ''Tablet'') ?evs)"
      have "e \<in> set (filter (\<lambda>x. deviceOf (e_device x) = ''Tablet'') ?evs)"
        using m d by simp
      then have "0 < ?c"
        using length_pos_if_in_set by fast
      moreover have "(''Tablet'', ?c) \<in> set (devices now q events)"
        unfolding devices_def set_count_by using m d by force
      ultimately show ?thesis by blast
    qed
    show ?thesis using d r g by blast
  qed
  show ?thesis using never all tablet by blast
qed

theorem C9_realtime_never_tablet_witness:
  "regex_i_test [''Tablet'', ''iPad''] (ToString (default_to (e_device tablet_event) (JStr '''')))
   \<and> \<not> regex_i_test [''Mobile'', ''Android'', ''iPhone'']
          (ToString (default_to (e_device tablet_event) (JStr '''')))
   \<and> deviceOf (e_device tablet_event) = ''Tablet''
   \<and> rt_device (realtime_row_of example_dates tablet_event) = ''Desktop''
   \<and> tablet_event \<in> set (filterEvents 1700000000000 [tablet_event] (query_period None))
   \<and> (\<exists>c. 0 < c \<and> (''Tablet'', c) \<in> set (devices 1700000000000 None [tablet_event]))"
proof -
  have d: "default_to (e_device tablet_event) (JStr '''') = JStr ''Mozilla/5.0 (iPad)''"
    by (simp add: tablet_event_def default_to_def)
  have h1: "regex_i_test [''Tablet'', ''iPad''] ''Mozilla/5.0 (iPad)''"
    by code_simp
  have h2: "\<not> regex_i_test [''Mobile'', ''Android'', ''iPhone''] ''Mozilla/5.0 (iPad)''"
    by code_simp
  have h3: "filterEvents 1700000000000 [tablet_event] (query_period None) = [tablet_event]"
    by code_simp
  show ?thesis
    using C9_realtime_never_tablet
            [of example_dates tablet_event "[tablet_event]" 1700000000000 None]
      d h1 h2 h3
    by simp
qed

lemma sourceOf_cases:
  "sourceOf hn r = ''Direct'' \<or> sourceOf hn r = ''Search'' \<or> sourceOf hn r = ''Social''
   \<or> sourceOf hn r = ''Referral''"
  by (simp add: sourceOf_def split: option.split)

text \<open>
  Claim C7. The sources operation puts every referrer in one of \<open>Direct\<close>, \<open>Search\<close>,
  \<open>Social\<close>, \<open>Referral\<close>: a falsy referrer, the empty one among them, is \<open>Direct\<close>;
  otherwise a referrer whose URL hostname contains \<open>google\<close> is \<open>Search\<close>; failing
  that, one whose hostname contains \<open>facebook\<close>, \<open>twitter\<close> or \<open>instagram\<close> is
  \<open>Social\<close>; any other URL, and any text the URL parser refuses, is \<open>Referral\<close>. With
  a parser that reads the hostname \<open>www.google.com\<close> from
  \<open>https://www.google.com/search?q=x\<close> that referrer is \<open>Search\<close>, and with one that
  refuses \<open>not a url\<close> that referrer is \<open>Referral\<close>. Every entry of the result has one
  of the four classes, and the counts add up to the number of in-window events: each
  event is counted in exactly one class.
\<close>

theorem C7_source_classification:
  "sourceOf hn r \<in> four_sources
   \<and> (\<not> truthy r \<longrightarrow> sourceOf hn r = ''Direct'')
   \<and> sourceOf hn (JStr '''') = ''Direct''
   \<and> (truthy r \<and> hn (ToString r) = Some h \<and> includes_js h ''google'' \<longrightarrow>
        sourceOf hn r = ''Search'')
   \<and> (truthy r \<and> hn (ToString r) = Some h \<and> \<not> includes_js h ''google''
        \<and> (includes_js h ''facebook'' \<or> includes_js h ''twitter'' \<or> includes_js h ''instagram'')
      \<longrightarrow> sourceOf hn r = ''Social'')
   \<and> (truthy r \<and> hn (ToString r) = Some h \<and> \<not> includes_js h ''google''
        \<and> \<not> includes_js h ''facebook'' \<and> \<not> includes_js h ''twitter''
        \<and> \<not> includes_js h ''instagram''
      \<longrightarrow> sourceOf hn r = ''Referral'')
   \<and> (truthy r \<and> hn (ToString r) = None \<longrightarrow> sourceOf hn r = ''Referral'')
   \<and> (hn ''https://www.google.com/search?q=x'' = Some ''www.google.com'' \<longrightarrow>
        sourceOf hn (JStr ''https://www.google.com/search?q=x'') = ''Search'')
   \<and> (hn ''not a url'' = None \<longrightarrow> sourceOf hn (JStr ''not a url'') = ''Referral'')
   \<and> (\<forall>g \<in> set (sources hn now q events). fst g \<in> four_sources)
   \<and> sum_list (map snd (sources hn now q events))
       = length (filterEvents now events (query_period q))"
proof -
  have c0: "sourceOf hn x \<in> four_sources" for x
    using sourceOf_cases [of hn x] unfolding four_sources_def by blast
  have c1: "\<not> truthy r \<longrightarrow> sourceOf hn r = ''Direct''"
    by (simp add: sourceOf_def)
  have c2: "sourceOf hn (JStr '''') = ''Direct''"
    by (simp add: sourceOf_def)
  have c3: "truthy r \<and> hn (ToString r) = Some h \<and> includes_js h ''google'' \<longrightarrow>
        sourceOf hn r = ''Search''"
    by (simp add: sourceOf_def)
  have c4: "truthy r \<and> hn (ToString r) = Some h \<and> \<not> includes_js h ''google''
        \<and> (includes_js h ''facebook'' \<or> includes_js h ''twitter'' \<or> includes_js h ''instagram'')
      \<longrightarrow> sourceOf hn r = ''Social''"
    by (simp add: sourceOf_def)
  have c5: "truthy r \<and> hn (ToString r) = Some h \<and> \<not> includes_js h ''google''
        \<and> \<not> includes_js h ''facebook'' \<and> \<not> includes_js h ''twitter''
        \<and> \<not> includes_js h ''instagram''
      \<longrightarrow> sourceOf hn r = ''Referral''"
    by (simp add: sourceOf_def)
  have c6: "truthy r \<and> hn (ToString r) = None \<longrightarrow> sourceOf hn r = ''Referral''"
    by (simp add: sourceOf_def)
  have g: "includes_js ''www.google.com'' ''google''"
    by code_simp
  have c7: "hn ''https://www.google.com/search?q=x'' = Some ''www.google.com'' \<longrightarrow>
        sourceOf hn (JStr ''https://www.google.com/search?q=x'') = ''Search''"
    using g by (simp add: sourceOf_def)
  have c8: "hn ''not a url'' = None \<longrightarrow> sourceOf hn (JStr ''not a url'') = ''Referral''"
    by (simp add: sourceOf_def)
  have c9: "\<forall>g \<in> set (sources hn now q events). fst g \<in> four_sources"
    using c0 unfolding sources_def set_count_by by auto
  have c10: "sum_list (map snd (sources hn now q events))
       = length (filterEvents now events (query_period q))"
    unfolding sources_def by (rule sum_count_by)
  show ?thesis
    using c0 [of r] c1 c2 c3 c4 c5 c6 c7 c8 c9 c10 by blast
qed

theorem C7_source_classification_witness:
  "simple_hostname ''https://www.google.com/search?q=x'' = Some ''www.google.com''
   \<and> sourceOf simple_hostname (JStr ''https://www.google.com/search?q=x'') = ''Search''
   \<and> simple_hostname ''not a url'' = None
   \<and> sourceOf simple_hostname (JStr ''not a url'') = ''Referral''
   \<and> sourceOf simple_hostname (JStr '''') = ''Direct''
   \<and> sourceOf simple_hostname (JStr ''https://m.facebook.com/'') = ''Social''
   \<and> sources simple_hostname 1700000000000 None referrer_log
       = [(''Search'', 1), (''Direct'', 1), (''Referral'', 2), (''Social'', 1)]"
proof -
  have h1: "simple_hostname ''https://www.google.com/search?q=x'' = Some ''www.google.com''"
    by code_simp
  have h2: "simple_hostname ''not a url'' = None"
    by code_simp
  have h3: "truthy (JStr ''https://m.facebook.com/'')
            \<and> simple_hostname (ToString (JStr ''https://m.facebook.com/'')) = Some ''m.facebook.com''
            \<and> \<not> includes_js ''m.facebook.com'' ''google''
            \<and> (includes_js ''m.facebook.com'' ''facebook'' \<or> includes_js ''m.facebook.com'' ''twitter''
                \<or> includes_js ''m.facebook.com'' ''instagram'')"
    by code_simp
  have h4: "sources simple_hostname 1700000000000 None referrer_log
       = [(''Search'', 1), (''Direct'', 1), (''Referral'', 2), (''Social'', 1)]"
    by code_simp
  show ?thesis
    using C7_source_classification
            [of simple_hostname "JStr ''https://m.facebook.com/''" "''m.facebook.com''"
                1700000000000 None referrer_log]
      h1 h2 h3 h4
    by simp
qed

section \<open>Stored names of uploads\<close>

lemma digit_value_digit_char: "d < 10 \<Longrightarrow> digit_value (digit_char d) = d"
proof -
  assume "d < 10"
  then have "d \<in> set [0..<10]" by simp
  moreover have "list_all (\<lambda>d. digit_value (digit_char d) = d) [0..<10]"
    by code_simp
  ultimately show ?thesis
    unfolding list_all_iff by blast
qed

lemma digit_char_not_dash: "d < 10 \<Longrightarrow> digit_char d \<noteq> CHR ''-''"
proof -
  assume "d < 10"
  then have "d \<in> set [0..<10]" by simp
  moreover have "list_all (\<lambda>d. digit_char d \<noteq> CHR ''-'') [0..<10]"
    by code_simp
  ultimately show ?thesis
    unfolding list_all_iff by blast
qed

lemma undec_snoc: "undec (xs @ [c]) = 10 * undec xs + digit_value c"
  by (simp add: undec_def)

lemma undec_dec: "undec (dec n) = n"
proof (induction n rule: dec.induct)
  case (1 n)
  show ?case
  proof (cases "n < 10")
    case True
    then have "dec n = [] @ [digit_char n]" by (simp add: dec.simps)
    then have "undec (dec n) = 10 * undec [] + digit_value (digit_char n)"
      by (simp only: undec_snoc)
    with True show ?thesis by (simp add: undec_def digit_value_digit_char)
  next
    case False
    then have "dec n = dec (n div 10) @ [digit_char (n mod 10)]" by (simp add: dec.simps)
    then have "undec (dec n) = 10 * undec (dec (n div 10)) + digit_value (digit_char (n mod 10))"
      by (simp only: undec_snoc)
    also have "undec (dec (n div 10)) = n div 10" using False by (rule "1.IH")
    also have "digit_value (digit_char (n mod 10)) = n mod 10"
      by (rule digit_value_digit_char) simp
    finally show ?thesis by simp
  qed
qed

lemma dec_inj: "dec a = dec b \<Longrightarrow> a = b"
  by (metis undec_dec)

lemma dec_no_dash: "CHR ''-'' \<notin> set (dec n)"
proof (induction n rule: dec.induct)
  case (1 n)
  show ?case
  proof (cases "n < 10")
    case True
    then have "dec n = [digit_char n]" by (simp add: dec.simps)
    with True digit_char_not_dash [of n] show ?thesis by simp
  next
    case False
    then have d: "dec n = dec (n div 10) @ [digit_char (n mod 10)]" by (simp add: dec.simps)
    have "CHR ''-'' \<notin> set (dec (n div 10))" using False by (rule "1.IH")
    moreover have "digit_char (n mod 10) \<noteq> CHR ''-''" by (rule digit_char_not_dash) simp
    ultimately show ?thesis unfolding d by simp
  qed
qed

lemma dec_int_inj: "dec_int i = dec_int j \<Longrightarrow> i = j"
proof -
  assume e: "dec_int i = dec_int j"
  have neg_pos: False if "a < 0" "\<not> b < 0" "dec_int a = dec_int b" for a b
  proof -
    from that have "CHR ''-'' # dec (nat (- a)) = dec (nat b)" by (simp add: dec_int_def)
    then have "CHR ''-'' \<in> set (dec (nat b))" by (metis list.set_intros(1))
    then show False using dec_no_dash by blast
  qed
  show ?thesis
  proof (cases "i < 0")
    case True
    show ?thesis
    proof (cases "j < 0")
      case j: True
      with True e have "dec (nat (- i)) = dec (nat (- j))" by (simp add: dec_int_def)
      then have "nat (- i) = nat (- j)" by (rule dec_inj)
      with True j show ?thesis by simp
    next
      case False
      with True e neg_pos [of i j] show ?thesis by simp
    qed
  next
    case False
    show ?thesis
    proof (cases "j < 0")
      case True
      with False e neg_pos [of j i] show ?thesis by simp
    next
      case j: False
      with False e have "dec (nat i) = dec (nat j)" by (simp add: dec_int_def)
      then have "nat i = nat j" by (rule dec_inj)
      with False j show ?thesis by simp
    qed
  qed
qed

lemma split_at_last:
  assumes "x \<notin> set b1" "x \<notin> set b2" "a1 @ x # b1 = a2 @ x # b2"
  shows "a1 = a2 \<and> b1 = b2"
proof -
  have r: "rev b1 @ x # rev a1 = rev b2 @ x # rev a2"
    using assms(3) by (metis rev.simps(2) rev_append append_assoc append_Cons append_Nil)
  have "takeWhile (\<lambda>c. c \<noteq> x) (rev b1 @ x # rev a1) = rev b1"
    using assms(1) by (auto simp: takeWhile_tail)
  moreover have "takeWhile (\<lambda>c. c \<noteq> x) (rev b2 @ x # rev a2) = rev b2"
    using assms(2) by (auto simp: takeWhile_tail)
  ultimately have "rev b1 = rev b2" using r by simp
  then have b: "b1 = b2" by simp
  with assms(3) show ?thesis by simp
qed

lemma storage_filename_inj:
  "storage_filename t1 r1 n = storage_filename t2 r2 n \<longleftrightarrow> t1 = t2 \<and> r1 = r2"
proof
  assume "storage_filename t1 r1 n = storage_filename t2 r2 n"
  then have "(dec_int t1 @ CHR ''-'' # dec r1) @ (''-'' @ safeName n)
             = (dec_int t2 @ CHR ''-'' # dec r2) @ (''-'' @ safeName n)"
    by (simp add: storage_filename_def)
  then have "dec_int t1 @ CHR ''-'' # dec r1 = dec_int t2 @ CHR ''-'' # dec r2"
    by (simp only: append_same_eq)
  then have "dec_int t1 = dec_int t2 \<and> dec r1 = dec r2"
    using dec_no_dash by (intro split_at_last [of "CHR ''-''"]) auto
  then show "t1 = t2 \<and> r1 = r2"
    using dec_int_inj dec_inj by blast
next
  assume "t1 = t2 \<and> r1 = r2"
  then show "storage_filename t1 r1 n = storage_filename t2 r2 n" by simp
qed

lemma digit_chars:
  "digit_char 0 = CHR ''0''" "digit_char 1 = CHR ''1''" "digit_char 2 = CHR ''2''"
  "digit_char 3 = CHR ''3''" "digit_char 4 = CHR ''4''" "digit_char 5 = CHR ''5''"
  "digit_char 6 = CHR ''6''" "digit_char 7 = CHR ''7''" "digit_char 8 = CHR ''8''"
  "digit_char 9 = CHR ''9''" "digit_char (Suc 0) = CHR ''1''"
  by code_simp+

lemma dec_example: "dec_int 1700000000000 = ''1700000000000''" "dec 42 = ''42''"
  by (simp_all add: dec_int_def dec.simps digit_chars)

lemma safe_char_iff: "safe_char c \<longleftrightarrow> c \<in> set allowed_chars"
proof -
  have "list_all (\<lambda>c. safe_char c = (c \<in> set allowed_chars)) (Enum.enum :: char list)"
    by code_simp
  moreover have "c \<in> set (Enum.enum :: char list)"
    by (simp add: enum_UNIV)
  ultimately show ?thesis
    unfolding list_all_iff by blast
qed

lemma no_slash_safeName: "CHR ''/'' \<notin> set (safeName n)"
proof -
  have "\<not> safe_char CHR ''/''" by code_simp
  then show ?thesis
    unfolding safeName_def by (induction n) auto
qed

lemma no_slash_dec: "CHR ''/'' \<notin> set (dec n)"
proof -
  have "\<not> dec_char CHR ''/''" by code_simp
  then show ?thesis
    using dec_chars [of n] unfolding list_all_iff by blast
qed

lemma no_slash_dec_int: "CHR ''/'' \<notin> set (dec_int i)"
proof -
  have "\<not> dec_char CHR ''/''" by code_simp
  then show ?thesis
    using dec_int_chars [of i] unfolding list_all_iff by blast
qed

lemma basename_no_slash:
  assumes "CHR ''/'' \<notin> set p"
  shows "basename p = p"
proof -
  have a: "\<forall>c \<in> set (rev p). c \<noteq> CHR ''/''"
    using assms by auto
  then have d: "dropWhile (\<lambda>c. c = CHR ''/'') (rev p) = rev p"
    by (cases "rev p") auto
  have t: "takeWhile (\<lambda>c. c \<noteq> CHR ''/'') (rev p) = rev p"
    using a by (simp only: takeWhile_eq_all_conv)
  show ?thesis
    unfolding basename_def d t by simp
qed

lemma no_slash_storage_filename: "CHR ''/'' \<notin> set (storage_filename t r n)"
  using no_slash_dec_int [of t] no_slash_dec [of r] no_slash_safeName [of n]
  by (simp add: storage_filename_def)

lemma storedName_eq: "m_storedName (record_of f) = storage_filename (f_now f) (f_rnd f) (originalname f)"
  by (simp add: record_of_def f_filename_def basename_no_slash no_slash_storage_filename)

lemma record_ids: "map m_id (map record_of files) = map f_uuid files"
  by (simp add: record_of_def)

text \<open>
  Claim C6, as amended. The stored name of an upload is the clock in milliseconds, a
  dash, the rounded random number, a dash, and the original name with every character
  outside \<open>A-Z a-z 0-9 . _ -\<close> replaced by an underscore. Two uploads of the same
  original name have different stored names exactly when their clock readings or their
  random numbers differ. They produce two distinct catalog records: the id of a record
  is the result of the \<open>uuid()\<close> call made for it, so two uploads whose calls return
  different ids have records that differ, and differ in their ids, also when their
  stored names are the same; the records of a request whose ids are pairwise different
  are pairwise different. A request of 1 to 20 files appends one record per file, in
  order, and two requests of one file each append the two records one after the other.
\<close>

theorem C6_stored_names_distinct:
  "m_storedName (record_of f)
     = dec_int (f_now f) @ ''-'' @ dec (f_rnd f) @ ''-'' @ safeName (originalname f)
   \<and> length (safeName n) = length n
   \<and> (\<forall>i < length n.
         safeName n ! i = (if n ! i \<in> set allowed_chars then n ! i else CHR ''_''))
   \<and> (originalname f = originalname g \<longrightarrow>
        (m_storedName (record_of f) = m_storedName (record_of g)
           \<longleftrightarrow> f_now f = f_now g \<and> f_rnd f = f_rnd g))
   \<and> m_id (record_of f) = f_uuid f
   \<and> (f_uuid f \<noteq> f_uuid g \<longrightarrow>
        record_of f \<noteq> record_of g \<and> m_id (record_of f) \<noteq> m_id (record_of g))
   \<and> (files \<noteq> [] \<and> length files \<le> 20 \<longrightarrow>
        upload_media files items = (Saved (map record_of files), items @ map record_of files))
   \<and> (distinct (map f_uuid files) \<longrightarrow>
        distinct (map record_of files) \<and> distinct (map m_id (map record_of files)))
   \<and> upload_media [g] (snd (upload_media [f] items))
       = (Saved [record_of g], items @ [record_of f, record_of g])"
proof -
  have c1: "m_storedName (record_of f)
     = dec_int (f_now f) @ ''-'' @ dec (f_rnd f) @ ''-'' @ safeName (originalname f)"
    by (simp add: storedName_eq storage_filename_def)
  have c2: "length (safeName n) = length n"
    by (simp add: safeName_def)
  have c3: "\<forall>i < length n.
         safeName n ! i = (if n ! i \<in> set allowed_chars then n ! i else CHR ''_'')"
    by (simp add: safeName_def safe_char_iff)
  have c4: "originalname f = originalname g \<longrightarrow>
        (m_storedName (record_of f) = m_storedName (record_of g)
           \<longleftrightarrow> f_now f = f_now g \<and> f_rnd f = f_rnd g)"
    by (simp add: storedName_eq storage_filename_inj)
  have ids: "m_id (record_of h) = f_uuid h" for h
    by (simp add: record_of_def)
  have c5: "f_uuid f \<noteq> f_uuid g \<longrightarrow>
        record_of f \<noteq> record_of g \<and> m_id (record_of f) \<noteq> m_id (record_of g)"
    using ids [of f] ids [of g] by metis
  have c6: "files \<noteq> [] \<and> length files \<le> 20 \<longrightarrow>
        upload_media files items = (Saved (map record_of files), items @ map record_of files)"
    by (simp add: upload_media_def Let_def)
  have c7: "distinct (map f_uuid files) \<longrightarrow>
        distinct (map record_of files) \<and> distinct (map m_id (map record_of files))"
  proof
    assume "distinct (map f_uuid files)"
    then have d: "distinct (map m_id (map record_of files))"
      by (simp only: record_ids)
    then have "distinct (map record_of files)"
      by (simp only: distinct_map)
    with d show "distinct (map record_of files) \<and> distinct (map m_id (map record_of files))"
      by simp
  qed
  have c8: "upload_media [g] (snd (upload_media [f] items))
       = (Saved [record_of g], items @ [record_of f, record_of g])"
    by (simp add: upload_media_def Let_def)
  show ?thesis
    using c1 c2 c3 c4 ids [of f] c5 c6 c7 c8 by blast
qed

theorem C6_stored_names_distinct_witness:
  "m_storedName (record_of (upload_example ''my photo (1).png'' 1700000000000 42 ''uuid-1''))
     = ''1700000000000-42-my_photo__1_.png''
   \<and> m_storedName (record_of (upload_example ''my photo (1).png'' 1700000000000 42 ''uuid-1''))
       \<noteq> m_storedName (record_of (upload_example ''my photo (1).png'' 1700000000000 43 ''uuid-2''))
   \<and> record_of (upload_example ''my photo (1).png'' 1700000000000 42 ''uuid-1'')
       \<noteq> record_of (upload_example ''my photo (1).png'' 1700000000000 43 ''uuid-2'')
   \<and> record_of (upload_example ''a.png'' 1700000000000 42 ''uuid-1'')
       \<noteq> record_of (upload_example ''a.png'' 1700000000000 42 ''uuid-2'')
   \<and> m_storedName (record_of (upload_example ''a.png'' 1700000000000 42 ''uuid-1''))
       = m_storedName (record_of (upload_example ''a.png'' 1700000000000 42 ''uuid-2''))
   \<and> distinct (map record_of [upload_example ''a.png'' 1700000000000 42 ''uuid-1'',
                              upload_example ''a.png'' 1700000000000 42 ''uuid-2''])
   \<and> upload_media [upload_example ''my photo (1).png'' 1700000000000 42 ''uuid-1'',
                   upload_example ''my photo (1).png'' 1700000000000 43 ''uuid-2''] []
       = (Saved [record_of (upload_example ''my photo (1).png'' 1700000000000 42 ''uuid-1''),
                 record_of (upload_example ''my photo (1).png'' 1700000000000 43 ''uuid-2'')],
          [record_of (upload_example ''my photo (1).png'' 1700000000000 42 ''uuid-1''),
           record_of (upload_example ''my photo (1).png'' 1700000000000 43 ''uuid-2'')])"
proof -
  let ?f = "upload_example ''my photo (1).png'' 1700000000000 42 ''uuid-1''"
  let ?g = "upload_example ''my photo (1).png'' 1700000000000 43 ''uuid-2''"
  let ?a1 = "upload_example ''a.png'' 1700000000000 42 ''uuid-1''"
  let ?a2 = "upload_example ''a.png'' 1700000000000 42 ''uuid-2''"
  have s: "safeName ''my photo (1).png'' = ''my_photo__1_.png''"
    by code_simp
  have fields: "originalname ?f = originalname ?g" "f_now ?f = f_now ?g" "f_rnd ?f \<noteq> f_rnd ?g"
    "f_uuid ?a1 \<noteq> f_uuid ?a2" "f_uuid ?f \<noteq> f_uuid ?g"
    "f_now ?f = 1700000000000" "f_rnd ?f = 42" "originalname ?f = ''my photo (1).png''"
    "originalname ?a1 = originalname ?a2" "f_now ?a1 = f_now ?a2" "f_rnd ?a1 = f_rnd ?a2"
    by (simp_all add: upload_example_def)
  have len: "[?f, ?g] \<noteq> [] \<and> length [?f, ?g] \<le> 20"
    by simp
  have du: "distinct (map f_uuid [?a1, ?a2])"
    by (simp add: upload_example_def)
  note t1 = C6_stored_names_distinct [of ?f "''my photo (1).png''" ?g "[?f, ?g]" "[]"]
  note t2 = C6_stored_names_distinct [of ?a1 "''a.png''" ?a2 "[?a1, ?a2]" "[]"]
  have n: "m_storedName (record_of ?f) = ''1700000000000-42-my_photo__1_.png''"
    using t1 fields by (simp add: dec_example s)
  have d: "m_storedName (record_of ?f) \<noteq> m_storedName (record_of ?g)"
    using t1 fields by blast
  have r1: "record_of ?f \<noteq> record_of ?g"
    using t1 fields by blast
  have r2: "record_of ?a1 \<noteq> record_of ?a2"
    using t2 fields by blast
  have e: "m_storedName (record_of ?a1) = m_storedName (record_of ?a2)"
    using t2 fields by blast
  have dr: "distinct (map record_of [?a1, ?a2])"
    using t2 du by blast
  have up: "upload_media [?f, ?g] [] = (Saved (map record_of [?f, ?g]), [] @ map record_of [?f, ?g])"
    using t1 len by blast
  show ?thesis
    using n d r1 r2 e dr up by simp
qed

text \<open>
  Claim C6 as first stated fails: two uploads of \<open>a.png\<close> in the same millisecond that
  draw the same random number get the same stored name, \<open>1700000000000-42-a.png\<close>, so
  the stored names of uploads with identical original names are not always distinct.
\<close>

theorem C6_same_stamp_counterexample:
  "originalname (upload_example ''a.png'' 1700000000000 42 ''uuid-1'')
     = originalname (upload_example ''a.png'' 1700000000000 42 ''uuid-2'')
   \<and> fst (upload_media [upload_example ''a.png'' 1700000000000 42 ''uuid-1'',
                        upload_example ''a.png'' 1700000000000 42 ''uuid-2''] [])
       = Saved [record_of (upload_example ''a.png'' 1700000000000 42 ''uuid-1''),
                record_of (upload_example ''a.png'' 1700000000000 42 ''uuid-2'')]
   \<and> m_storedName (record_of (upload_example ''a.png'' 1700000000000 42 ''uuid-1''))
       = ''1700000000000-42-a.png''
   \<and> m_storedName (record_of (upload_example ''a.png'' 1700000000000 42 ''uuid-2''))
       = ''1700000000000-42-a.png''"
proof -
  have s: "safeName ''a.png'' = ''a.png''"
    by code_simp
  have n: "m_storedName (record_of (upload_example ''a.png'' 1700000000000 42 u))
             = ''1700000000000-42-a.png''" for u
    by (simp add: storedName_eq storage_filename_def upload_example_def dec_example s)
  have u: "fst (upload_media [upload_example ''a.png'' 1700000000000 42 ''uuid-1'',
                        upload_example ''a.png'' 1700000000000 42 ''uuid-2''] [])
       = Saved [record_of (upload_example ''a.png'' 1700000000000 42 ''uuid-1''),
                record_of (upload_example ''a.png'' 1700000000000 42 ''uuid-2'')]"
    by (simp add: upload_media_def Let_def)
  show ?thesis
    using n u by (simp add: upload_example_def)
qed

end
